theory Spec2Isabelle
  imports Main "HOL-Library.Sublist"
begin



section \<open>JavaScript values\<close>

text \<open>
  The values a response body parses to: JSON, and \<open>JBlob\<close> for a \<open>Blob\<close> object.  A
  missing property (\<open>undefined\<close>) is \<open>None\<close> of \<open>json option\<close>.  Numbers are the integers
  up to \<open>2 ^ 53\<close> in magnitude, which \<open>JSON.parse\<close> reads exactly and \<open>String\<close> prints digit
  by digit: no claim depends on a fraction or on a larger number.
\<close>

datatype json =
    JNull
  | JBool bool
  | JNum int
  | JStr string
  | JArr "json list"
  | JObj "(string \<times> json) list"
  | JBlob string

text \<open>JavaScript truthiness, as used by \<open>||\<close>, \<open>?:\<close> and \<open>if (x)\<close>.\<close>

fun truthy :: "json \<Rightarrow> bool" where
  "truthy JNull = False"
| "truthy (JBool b) = b"
| "truthy (JNum n) = (n \<noteq> 0)"
| "truthy (JStr s) = (s \<noteq> [])"
| "truthy (JArr xs) = True"
| "truthy (JObj kvs) = True"
| "truthy (JBlob b) = True"

fun truthy_opt :: "json option \<Rightarrow> bool" where
  "truthy_opt None = False"
| "truthy_opt (Some v) = truthy v"

text \<open>\<open>a || b\<close> on possibly undefined operands, and with a defined last operand.\<close>

definition js_or :: "json option \<Rightarrow> json option \<Rightarrow> json option" where
  "js_or a b = (if truthy_opt a then a else b)"

definition js_or_else :: "json option \<Rightarrow> json \<Rightarrow> json" where
  "js_or_else a b = (case a of None \<Rightarrow> b | Some v \<Rightarrow> if truthy v then v else b)"

text \<open>
  Property reads \<open>v.k\<close> for string keys that are no built-in property: on \<open>null\<close> the read
  throws a \<open>TypeError\<close> (\<open>None\<close> here), on an object it is the property or
  \<open>undefined\<close>, on any other value it is \<open>undefined\<close>.
\<close>

fun props :: "json \<Rightarrow> (string \<Rightarrow> json option) option" where
  "props JNull = None"
| "props (JObj kvs) = Some (map_of kvs)"
| "props v = Some (\<lambda>k. None)"

text \<open>\<open>a.join(',')\<close>.\<close>

fun join_commas :: "string list \<Rightarrow> string" where
  "join_commas [] = []"
| "join_commas [x] = x"
| "join_commas (x # y # ys) = x @ '','' @ join_commas (y # ys)"

text \<open>The decimal digits of a number.\<close>

fun show_nat :: "nat \<Rightarrow> string" where
  "show_nat n =
     (if n < 10 then [char_of (48 + n)] else show_nat (n div 10) @ [char_of (48 + n mod 10)])"

declare show_nat.simps [simp del]

definition show_int :: "int \<Rightarrow> string" where
  "show_int i = (if i < 0 then ''-'' @ show_nat (nat (- i)) else show_nat (nat i))"

text \<open>
  \<open>String(v)\<close>: a string is itself, an array is its elements joined by commas with
  \<open>null\<close> elements empty, any other object is its tag.
\<close>

fun js_string :: "json \<Rightarrow> string" where
  "js_string JNull = ''null''"
| "js_string (JBool b) = (if b then ''true'' else ''false'')"
| "js_string (JNum n) = show_int n"
| "js_string (JStr s) = s"
| "js_string (JArr xs) = join_commas (map (\<lambda>x. if x = JNull then [] else js_string x) xs)"
| "js_string (JObj kvs) = ''[object Object]''"
| "js_string (JBlob b) = ''[object Blob]''"

section \<open>config.ts\<close>

record ApiConfig =
  baseURL :: string
  timeout :: int
  retryAttempts :: int
  retryDelay :: int
  cacheEnabled :: bool
  cacheTTL :: int
  logRequests :: bool

definition API_BASE_URL :: string where
  "API_BASE_URL = ''http://localhost:8000''"

definition defaultApiConfig :: "bool \<Rightarrow> ApiConfig" where
  "defaultApiConfig isDevelopment =
     \<lparr> baseURL = API_BASE_URL, timeout = 30000, retryAttempts = 3, retryDelay = 1000,
       cacheEnabled = True, cacheTTL = 5 * 60 * 1000, logRequests = isDevelopment \<rparr>"

definition AUTH_TOKEN :: string where "AUTH_TOKEN = ''aura_token''"
definition USER_DATA :: string where "USER_DATA = ''aura_user''"

definition UNAUTHORIZED :: int where "UNAUTHORIZED = 401"
definition FORBIDDEN :: int where "FORBIDDEN = 403"
definition NOT_FOUND :: int where "NOT_FOUND = 404"
definition UNPROCESSABLE_ENTITY :: int where "UNPROCESSABLE_ENTITY = 422"
definition TOO_MANY_REQUESTS :: int where "TOO_MANY_REQUESTS = 429"
definition INTERNAL_SERVER_ERROR :: int where "INTERNAL_SERVER_ERROR = 500"
definition BAD_GATEWAY :: int where "BAD_GATEWAY = 502"
definition SERVICE_UNAVAILABLE :: int where "SERVICE_UNAVAILABLE = 503"
definition GATEWAY_TIMEOUT :: int where "GATEWAY_TIMEOUT = 504"

lemmas HTTP_STATUS_defs =
  UNAUTHORIZED_def FORBIDDEN_def NOT_FOUND_def UNPROCESSABLE_ENTITY_def TOO_MANY_REQUESTS_def
  INTERNAL_SERVER_ERROR_def BAD_GATEWAY_def SERVICE_UNAVAILABLE_def GATEWAY_TIMEOUT_def

definition MSG_NETWORK_ERROR :: string where
  "MSG_NETWORK_ERROR = ''Network error. Please check your connection.''"
definition MSG_TIMEOUT :: string where
  "MSG_TIMEOUT = ''Request timed out. Please try again.''"
definition MSG_UNKNOWN_ERROR :: string where
  "MSG_UNKNOWN_ERROR = ''An unknown error occurred.''"

section \<open>errors.ts\<close>

text \<open>The class of an error object: what \<open>instanceof\<close> and \<open>name\<close> tell apart.\<close>

datatype error_class =
    ApiError | NetworkError | TimeoutError | UnauthorizedError | ForbiddenError
  | NotFoundError | ValidationError | RateLimitError | ServerError | AbortError

text \<open>
  \<open>RateLimitError.retryAfter\<close>: \<open>undefined\<close>, \<open>NaN\<close> or a number.  \<open>Inexact\<close> is the number
  \<open>parseInt\<close> makes of a digit run above \<open>2 ^ 53\<close>: a double near its value, which is not
  computed here.
\<close>

datatype retry_hint = NoHint | NaN | Seconds int | Inexact

text \<open>
  The \<open>message\<close> of an error is the string \<open>Error(message)\<close> keeps, \<open>String\<close> of what the
  constructor was given: always a \<open>JStr\<close>.
\<close>

record api_error =
  err_class :: error_class
  message :: json
  statusCode :: int
  code :: "json option"
  detail :: "json option"
  errors :: "json option"
  retryAfter :: retry_hint

definition mk_error ::
  "error_class \<Rightarrow> json \<Rightarrow> int \<Rightarrow> json option \<Rightarrow> json option \<Rightarrow> json option \<Rightarrow> api_error" where
  "mk_error c m s cd d es =
     \<lparr> err_class = c, message = m, statusCode = s, code = cd, detail = d, errors = es,
       retryAfter = NoHint \<rparr>"

definition new_NetworkError :: api_error where
  "new_NetworkError =
     mk_error NetworkError (JStr MSG_NETWORK_ERROR) 0 (Some (JStr ''NETWORK_ERROR'')) None None"

definition new_TimeoutError :: api_error where
  "new_TimeoutError =
     mk_error TimeoutError (JStr MSG_TIMEOUT) 0 (Some (JStr ''TIMEOUT_ERROR'')) None None"

definition new_UnauthorizedError :: "json \<Rightarrow> api_error" where
  "new_UnauthorizedError m =
     mk_error UnauthorizedError m UNAUTHORIZED (Some (JStr ''UNAUTHORIZED'')) None None"

definition new_ForbiddenError :: "json \<Rightarrow> api_error" where
  "new_ForbiddenError m = mk_error ForbiddenError m FORBIDDEN (Some (JStr ''FORBIDDEN'')) None None"

definition new_NotFoundError :: "json \<Rightarrow> api_error" where
  "new_NotFoundError m = mk_error NotFoundError m NOT_FOUND (Some (JStr ''NOT_FOUND'')) None None"

definition new_ValidationError :: "json \<Rightarrow> json option \<Rightarrow> api_error" where
  "new_ValidationError m es =
     mk_error ValidationError m UNPROCESSABLE_ENTITY (Some (JStr ''VALIDATION_ERROR'')) None es"

definition new_RateLimitError :: "json \<Rightarrow> retry_hint \<Rightarrow> api_error" where
  "new_RateLimitError m ra =
     (mk_error RateLimitError m TOO_MANY_REQUESTS (Some (JStr ''RATE_LIMIT_ERROR'')) None None)
       \<lparr> retryAfter := ra \<rparr>"

definition new_ServerError :: "json \<Rightarrow> int \<Rightarrow> api_error" where
  "new_ServerError m s = mk_error ServerError m s (Some (JStr ''SERVER_ERROR'')) None None"

subsection \<open>\<open>parseInt(s, 10)\<close>\<close>

definition is_space :: "char \<Rightarrow> bool" where
  "is_space c = (c \<in> set [CHR '' '', CHR 0x09, CHR 0x0A, CHR 0x0B, CHR 0x0C, CHR 0x0D, CHR 0xA0])"

definition is_digit :: "char \<Rightarrow> bool" where
  "is_digit c = (48 \<le> (of_char c :: nat) \<and> (of_char c :: nat) \<le> 57)"

definition digit_val :: "char \<Rightarrow> int" where
  "digit_val c = int (of_char c) - 48"

definition digits_val :: "string \<Rightarrow> int" where
  "digits_val ds = foldl (\<lambda>acc c. 10 * acc + digit_val c) 0 ds"

text \<open>
  Leading white space is skipped, one sign is read, then the longest run of decimal digits;
  no digit at all gives \<open>NaN\<close>.  The result is a double: the value of the digits as long as
  that is at most \<open>2 ^ 53\<close>.
\<close>

definition parseInt10 :: "string \<Rightarrow> retry_hint" where
  "parseInt10 s =
     (let t = dropWhile is_space s;
          (neg, u) = (case t of
                        c # r \<Rightarrow> if c = CHR ''-'' then (True, r)
                                 else if c = CHR ''+'' then (False, r) else (False, t)
                      | [] \<Rightarrow> (False, t));
          ds = takeWhile is_digit u
      in if ds = [] then NaN
         else if digits_val ds \<le> 9007199254740992
           then Seconds (if neg then - digits_val ds else digits_val ds)
         else Inexact)"

subsection \<open>The response, as far as the client reads it\<close>

text \<open>
  \<open>body_text\<close> is what \<open>response.text()\<close> resolves to (\<open>None\<close>: the read rejects),
  \<open>body_json\<close> the JSON value of that text (\<open>None\<close>: it is not JSON, so \<open>JSON.parse\<close>
  and \<open>response.json()\<close> throw).  \<open>content_type\<close> and \<open>retry_after\<close> are
  \<open>headers.get\<close> of the two headers the client looks at.
\<close>

record response =
  status :: int
  statusText :: string
  content_type :: "string option"
  retry_after :: "string option"
  body_text :: "string option"
  body_json :: "json option"

definition ok :: "response \<Rightarrow> bool" where
  "ok r = (200 \<le> status r \<and> status r \<le> 299)"

text \<open>
  \<open>parseErrorResponse\<close>.  The body is read inside \<open>try\<close>: a failed read or parse leaves
  \<open>{}\<close>.  The property reads come after it, outside the \<open>try\<close>, so a body that parses to
  \<open>null\<close> makes the function throw a \<open>TypeError\<close>: the result \<open>None\<close>.  The first truthy
  value of \<open>message\<close>, \<open>detail\<close>, the status text and the default goes to the error
  constructor, and so through \<open>String\<close>.
\<close>

definition errorData_of :: "response \<Rightarrow> json" where
  "errorData_of r =
     (case body_text r of
        None \<Rightarrow> JObj []
      | Some text \<Rightarrow>
          if text \<noteq> [] then (case body_json r of None \<Rightarrow> JObj [] | Some j \<Rightarrow> j)
          else JObj [])"

definition parseErrorResponse :: "response \<Rightarrow> api_error option" where
  "parseErrorResponse r =
     (let statusCode = status r;
          errorData = errorData_of r
      in case props errorData of
           None \<Rightarrow> None
         | Some prop \<Rightarrow>
             (let m = JStr (js_string (js_or_else
                        (js_or (js_or (prop ''message'') (prop ''detail'')) (Some (JStr (statusText r))))
                        (JStr MSG_UNKNOWN_ERROR)));
                  cd = prop ''code'';
                  det = prop ''detail'';
                  es = prop ''errors''
              in Some (
                if statusCode = UNAUTHORIZED then new_UnauthorizedError m
                else if statusCode = FORBIDDEN then new_ForbiddenError m
                else if statusCode = NOT_FOUND then new_NotFoundError m
                else if statusCode = UNPROCESSABLE_ENTITY then new_ValidationError m es
                else if statusCode = TOO_MANY_REQUESTS then
                  new_RateLimitError m
                    (case retry_after r of
                       None \<Rightarrow> NoHint
                     | Some ra \<Rightarrow> if ra \<noteq> [] then parseInt10 ra else NoHint)
                else if statusCode = BAD_GATEWAY \<or> statusCode = SERVICE_UNAVAILABLE
                        \<or> statusCode = GATEWAY_TIMEOUT \<or> statusCode = INTERNAL_SERVER_ERROR
                  then new_ServerError m statusCode
                else mk_error ApiError m statusCode cd det es)))"

definition isRetryableError :: "api_error \<Rightarrow> bool" where
  "isRetryableError e =
     (err_class e = NetworkError \<or> err_class e = TimeoutError \<or> err_class e = ServerError
      \<or> statusCode e = TOO_MANY_REQUESTS \<or> statusCode e = BAD_GATEWAY
      \<or> statusCode e = SERVICE_UNAVAILABLE \<or> statusCode e = GATEWAY_TIMEOUT)"

section \<open>http-client.ts\<close>

text \<open>\<open>http_method\<close> is the field \<open>method\<close> of \<open>RequestInit\<close>.\<close>

record RequestOptions =
  http_method :: "string option"
  headers :: "string \<rightharpoonup> string"
  body :: "string option"
  opt_timeout :: "int option"
  opt_retryAttempts :: "int option"
  opt_retryDelay :: "int option"
  skipAuth :: bool
  skipCache :: bool
  opt_cacheTTL :: "int option"

record CacheEntry =
  data :: json
  timestamp :: int
  ttl :: int

text \<open>
  What a call does to the world outside the client, in order: reads and removals on
  \<open>localStorage\<close>, events dispatched on \<open>window\<close>, calls of \<open>fetch\<close>, and awaited
  \<open>setTimeout\<close> waits.  The \<open>console.log\<close> calls of the development logging interceptors
  are not recorded: they pass url, options and response through unchanged.
\<close>

datatype effect =
    LsGet string
  | LsRemove string
  | Dispatch string
  | Fetch string RequestOptions
  | Sleep int

record world =
  cache :: "string \<rightharpoonup> CacheEntry"
  localStorage :: "string \<rightharpoonup> string"
  now :: int
  ticks :: nat
  trace :: "effect list"

text \<open>
  How a \<open>fetch\<close> ends without the timer: a response, or the \<open>TypeError\<close> of a network failure.
  With the timer, it can also end by the \<open>AbortError\<close> of the abort controller.
\<close>

datatype net_outcome = Responded response | NetworkFailure

datatype fetch_outcome = Fetched net_outcome | Aborted

text \<open>
  The surroundings of the client.  Every \<open>await\<close> of a \<open>fetch\<close> or of a wait is a
  suspension point, numbered by \<open>ticks\<close>: \<open>net k\<close> is what a request issued at point \<open>k\<close> gets,
  \<open>latency k\<close> after how many milliseconds, and \<open>meanwhile k\<close> is what other code does to
  \<open>localStorage\<close> while the client is suspended there.
\<close>

record env =
  net :: "nat \<Rightarrow> string \<Rightarrow> RequestOptions \<Rightarrow> net_outcome"
  latency :: "nat \<Rightarrow> int"
  meanwhile :: "nat \<Rightarrow> (string \<rightharpoonup> string) \<Rightarrow> (string \<rightharpoonup> string)"

text \<open>What \<open>catch\<close> can see: an API error, or one of the built-in exceptions.\<close>

datatype exn = Api api_error | TypeError | DOMAbortError | SyntaxError

text \<open>\<open>n || d\<close> for an optional number: \<open>undefined\<close> and \<open>0\<close> give \<open>d\<close>.\<close>

definition num_or :: "int option \<Rightarrow> int \<Rightarrow> int" where
  "num_or n d = (case n of None \<Rightarrow> d | Some v \<Rightarrow> if v \<noteq> 0 then v else d)"

text \<open>\<open>n ?? d\<close>: only \<open>undefined\<close> gives \<open>d\<close>.\<close>

definition num_nullish :: "int option \<Rightarrow> int \<Rightarrow> int" where
  "num_nullish n d = (case n of None \<Rightarrow> d | Some v \<Rightarrow> v)"

text \<open>
  \<open>fetch(url, {...options, signal})\<close> under the timer \<open>setTimeout(abort, timeout)\<close>: the fetch
  is aborted when the timer fires first.
\<close>

definition do_fetch :: "env \<Rightarrow> string \<Rightarrow> RequestOptions \<Rightarrow> int \<Rightarrow> world \<Rightarrow> fetch_outcome \<times> world" where
  "do_fetch E url options tmo w =
     (let k = ticks w;
          aborted = (tmo < latency E k);
          w' = w \<lparr> localStorage := meanwhile E k (localStorage w),
                   now := now w + max 0 (if aborted then tmo else latency E k),
                   ticks := Suc k,
                   trace := trace w @ [Fetch url options] \<rparr>
      in (if aborted then Aborted else Fetched (net E k url options), w'))"

text \<open>\<open>await new Promise((resolve) => setTimeout(resolve, delay))\<close>.\<close>

definition sleep :: "env \<Rightarrow> int \<Rightarrow> world \<Rightarrow> world" where
  "sleep E delay w =
     w \<lparr> localStorage := meanwhile E (ticks w) (localStorage w),
         now := now w + max 0 delay,
         ticks := Suc (ticks w),
         trace := trace w @ [Sleep delay] \<rparr>"

text \<open>
  The one error interceptor the constructor installs (the unauthorized handler).  It always
  rethrows, so the loop over the error interceptors ends with it.
\<close>

definition unauthorized_handler :: "api_error \<Rightarrow> world \<Rightarrow> world" where
  "unauthorized_handler error w =
     (if statusCode error = UNAUTHORIZED
      then w \<lparr> localStorage := (localStorage w)(AUTH_TOKEN := None, USER_DATA := None),
               trace := trace w @ [LsRemove AUTH_TOKEN, LsRemove USER_DATA, Dispatch ''auth:logout''] \<rparr>
      else w)"

text \<open>One pass through the body of \<open>makeRequest\<close>: it returns, throws, or waits and retries.\<close>

datatype attempt_result = Return response | Retry int | Throw exn

text \<open>
  The \<open>catch\<close> clause: an error named \<open>AbortError\<close> is a timeout, a \<open>TypeError\<close> a network
  error, both retried while attempts remain; anything else is rethrown.
\<close>

definition catch_clause :: "int \<Rightarrow> int \<Rightarrow> nat \<Rightarrow> exn \<Rightarrow> attempt_result" where
  "catch_clause maxAttempts delay attempt ex =
     (if ex = DOMAbortError \<or> (case ex of Api e \<Rightarrow> err_class e = AbortError | _ \<Rightarrow> False) then
        (if int attempt < maxAttempts then Retry delay else Throw (Api new_TimeoutError))
      else if ex = TypeError then
        (if int attempt < maxAttempts then Retry delay else Throw (Api new_NetworkError))
      else Throw ex)"

definition attempt_once ::
  "env \<Rightarrow> ApiConfig \<Rightarrow> string \<Rightarrow> RequestOptions \<Rightarrow> nat \<Rightarrow> world \<Rightarrow> attempt_result \<times> world" where
  "attempt_once E cfg url options attempt w =
     (let tmo = num_or (opt_timeout options) (timeout cfg);
          maxAttempts = num_nullish (opt_retryAttempts options) (retryAttempts cfg);
          baseDelay = num_or (opt_retryDelay options) (retryDelay cfg);
          delay = baseDelay * 2 ^ (attempt - 1);
          (outcome, w1) = do_fetch E url options tmo w
      in case outcome of
           Fetched (Responded processedResponse) \<Rightarrow>
             if \<not> ok processedResponse then
               (case parseErrorResponse processedResponse of
                  None \<Rightarrow> (catch_clause maxAttempts delay attempt TypeError, w1)
                | Some error \<Rightarrow>
                    if isRetryableError error \<and> int attempt < maxAttempts then (Retry delay, w1)
                    else (catch_clause maxAttempts delay attempt (Api error),
                          unauthorized_handler error w1))
             else (Return processedResponse, w1)
         | Fetched NetworkFailure \<Rightarrow> (catch_clause maxAttempts delay attempt TypeError, w1)
         | Aborted \<Rightarrow> (catch_clause maxAttempts delay attempt DOMAbortError, w1))"

function makeRequest ::
  "env \<Rightarrow> ApiConfig \<Rightarrow> string \<Rightarrow> RequestOptions \<Rightarrow> nat \<Rightarrow> world \<Rightarrow> (exn + response) \<times> world" where
  "makeRequest E cfg url options attempt w =
     (case attempt_once E cfg url options attempt w of
        (Return response, w') \<Rightarrow> (Inr response, w')
      | (Retry delay, w') \<Rightarrow> makeRequest E cfg url options (Suc attempt) (sleep E delay w')
      | (Throw ex, w') \<Rightarrow> (Inl ex, w'))"
  by pat_completeness auto
termination
proof (relation "measure (\<lambda>(E, cfg, url, options, attempt, w).
         nat (num_nullish (opt_retryAttempts options) (retryAttempts cfg) - int attempt))")
  show "wf (measure (\<lambda>(E, cfg, url, options, attempt, w).
         nat (num_nullish (opt_retryAttempts options) (retryAttempts cfg) - int attempt)))"
    by simp
next
  fix E cfg url options attempt w x y delay
  assume "(x, y) = attempt_once E cfg url options attempt w" "x = Retry delay"
  then have "attempt_once E cfg url options attempt w = (Retry delay, y)"
    by simp
  then have "int attempt < num_nullish (opt_retryAttempts options) (retryAttempts cfg)"
    by (auto simp: attempt_once_def catch_clause_def Let_def
          split: prod.splits fetch_outcome.splits net_outcome.splits option.splits if_splits)
  then show "((E, cfg, url, options, Suc attempt, sleep E delay y), (E, cfg, url, options, attempt, w))
      \<in> measure (\<lambda>(E, cfg, url, options, attempt, w).
         nat (num_nullish (opt_retryAttempts options) (retryAttempts cfg) - int attempt))"
    by simp
qed

subsection \<open>Request interceptors\<close>

type_synonym RequestInterceptor =
  "string \<Rightarrow> RequestOptions \<Rightarrow> world \<Rightarrow> (string \<times> RequestOptions) \<times> world"

definition auth_interceptor :: RequestInterceptor where
  "auth_interceptor url options w =
     (if \<not> skipAuth options then
        (let w' = w \<lparr> trace := trace w @ [LsGet AUTH_TOKEN] \<rparr>
         in case localStorage w AUTH_TOKEN of
              None \<Rightarrow> ((url, options), w')
            | Some token \<Rightarrow>
                if token \<noteq> [] then
                  ((url, options \<lparr> headers :=
                            (headers options)(''Authorization'' \<mapsto> ''Bearer '' @ token) \<rparr>), w')
                else ((url, options), w'))
      else ((url, options), w))"

definition logging_interceptor :: RequestInterceptor where
  "logging_interceptor url options w = ((url, options), w)"

text \<open>The list \<open>setupDefaultInterceptors\<close> builds; nothing else in the repository adds to it.\<close>

definition requestInterceptors :: "ApiConfig \<Rightarrow> RequestInterceptor list" where
  "requestInterceptors cfg =
     auth_interceptor # (if logRequests cfg then [logging_interceptor] else [])"

fun run_request_interceptors ::
  "RequestInterceptor list \<Rightarrow> string \<Rightarrow> RequestOptions \<Rightarrow> world \<Rightarrow> (string \<times> RequestOptions) \<times> world" where
  "run_request_interceptors [] url options w = ((url, options), w)"
| "run_request_interceptors (interceptor # rest) url options w =
     (case interceptor url options w of
        ((url', options'), w') \<Rightarrow> run_request_interceptors rest url' options' w')"

subsection \<open>Parsing and caching\<close>

text \<open>\<open>s.includes(sub)\<close>.\<close>

fun str_includes :: "string \<Rightarrow> string \<Rightarrow> bool" where
  "str_includes [] sub = (sub = [])"
| "str_includes (c # cs) sub = (prefix sub (c # cs) \<or> str_includes cs sub)"

definition response_json :: "response \<Rightarrow> exn + json" where
  "response_json r =
     (case body_text r of
        None \<Rightarrow> Inl TypeError
      | Some t \<Rightarrow> (case body_json r of None \<Rightarrow> Inl SyntaxError | Some j \<Rightarrow> Inr j))"

definition response_text :: "response \<Rightarrow> exn + json" where
  "response_text r = (case body_text r of None \<Rightarrow> Inl TypeError | Some t \<Rightarrow> Inr (JStr t))"

definition response_blob :: "response \<Rightarrow> exn + json" where
  "response_blob r = (case body_text r of None \<Rightarrow> Inl TypeError | Some t \<Rightarrow> Inr (JBlob t))"

definition ct_includes :: "response \<Rightarrow> string \<Rightarrow> bool" where
  "ct_includes r sub = (case content_type r of None \<Rightarrow> False | Some ct \<Rightarrow> str_includes ct sub)"

text \<open>
  \<open>parseResponse\<close>.  In the last branch \<open>response.json()\<close> has read the body when it
  throws, so the \<open>response.text()\<close> of the \<open>catch\<close> rejects with a \<open>TypeError\<close>.
\<close>

definition parseResponse :: "response \<Rightarrow> exn + json" where
  "parseResponse r =
     (if ct_includes r ''application/json'' then response_json r
      else if ct_includes r ''text/'' then response_text r
      else if ct_includes r ''application/octet-stream'' then response_blob r
      else (case response_json r of Inr j \<Rightarrow> Inr j | Inl ex \<Rightarrow> Inl TypeError))"

text \<open>
  \<open>getCachedResponse\<close> returns the payload or \<open>null\<close>; a payload that is itself \<open>null\<close>
  is the same value as a miss, here as in the source.
\<close>

definition getCachedResponse :: "string \<Rightarrow> world \<Rightarrow> json \<times> world" where
  "getCachedResponse key w =
     (case cache w key of
        None \<Rightarrow> (JNull, w)
      | Some entry \<Rightarrow>
          if now w - timestamp entry > ttl entry
          then (JNull, w \<lparr> cache := (cache w)(key := None) \<rparr>)
          else (data entry, w))"

definition cacheResponse :: "string \<Rightarrow> json \<Rightarrow> int \<Rightarrow> world \<Rightarrow> world" where
  "cacheResponse key d t w =
     w \<lparr> cache := (cache w)(key \<mapsto> \<lparr> data = d, timestamp = now w, ttl = t \<rparr>) \<rparr>"

subsection \<open>\<open>request\<close> and \<open>get\<close>\<close>

definition method_or_GET :: "RequestOptions \<Rightarrow> string" where
  "method_or_GET options =
     (case http_method options of None \<Rightarrow> ''GET'' | Some m \<Rightarrow> if m \<noteq> [] then m else ''GET'')"

definition cacheable :: "ApiConfig \<Rightarrow> RequestOptions \<Rightarrow> bool" where
  "cacheable cfg options =
     (cacheEnabled cfg \<and> \<not> skipCache options
      \<and> (http_method options = Some ''GET'' \<or> http_method options = None \<or> http_method options = Some []))"

definition full_url :: "ApiConfig \<Rightarrow> string \<Rightarrow> string" where
  "full_url cfg endpoint = (if prefix ''http'' endpoint then endpoint else baseURL cfg @ endpoint)"

definition with_content_type :: "RequestOptions \<Rightarrow> RequestOptions" where
  "with_content_type options =
     options \<lparr> headers := [''Content-Type'' \<mapsto> ''application/json''] ++ headers options \<rparr>"

definition request ::
  "env \<Rightarrow> ApiConfig \<Rightarrow> string \<Rightarrow> RequestOptions \<Rightarrow> world \<Rightarrow> (exn + json) \<times> world" where
  "request E cfg endpoint options w =
     (case run_request_interceptors (requestInterceptors cfg)
             (full_url cfg endpoint) (with_content_type options) w of
        ((url, requestOptions), w1) \<Rightarrow>
          (let cacheKey = method_or_GET requestOptions @ '':'' @ url;
               (cached, w2) = (if cacheable cfg requestOptions
                               then getCachedResponse cacheKey w1 else (JNull, w1))
           in if cacheable cfg requestOptions \<and> truthy cached then (Inr cached, w2)
              else
                (case makeRequest E cfg url requestOptions 1 w2 of
                   (Inl ex, w3) \<Rightarrow> (Inl ex, w3)
                 | (Inr response, w3) \<Rightarrow>
                     (case parseResponse response of
                        Inl ex \<Rightarrow> (Inl ex, w3)
                      | Inr d \<Rightarrow>
                          (Inr d,
                           if cacheable cfg requestOptions
                           then cacheResponse cacheKey d
                                  (num_or (opt_cacheTTL requestOptions) (cacheTTL cfg)) w3
                           else w3)))))"

definition get :: "env \<Rightarrow> ApiConfig \<Rightarrow> string \<Rightarrow> RequestOptions \<Rightarrow> world \<Rightarrow> (exn + json) \<times> world" where
  "get E cfg endpoint options w = request E cfg endpoint (options \<lparr> http_method := Some ''GET'' \<rparr>) w"

text \<open>The effects a call added to the trace, and the parts of them the claims speak of.\<close>

definition effects_since :: "world \<Rightarrow> world \<Rightarrow> effect list" where
  "effects_since w w' = drop (length (trace w)) (trace w')"

fun is_Fetch :: "effect \<Rightarrow> bool" where
  "is_Fetch (Fetch u options) = True"
| "is_Fetch e = False"

fun is_Sleep :: "effect \<Rightarrow> bool" where
  "is_Sleep (Sleep d) = True"
| "is_Sleep e = False"

fun is_LsGet :: "effect \<Rightarrow> bool" where
  "is_LsGet (LsGet k) = True"
| "is_LsGet e = False"

subsection \<open>Concrete inputs\<close>

text \<open>The options object \<open>{}\<close>, a client that has done nothing yet, and simple surroundings.\<close>

definition no_options :: RequestOptions where
  "no_options =
     \<lparr> http_method = None, headers = Map.empty, body = None, opt_timeout = None,
       opt_retryAttempts = None, opt_retryDelay = None, skipAuth = False, skipCache = False,
       opt_cacheTTL = None \<rparr>"

definition fresh_world :: world where
  "fresh_world =
     \<lparr> cache = Map.empty, localStorage = Map.empty, now = 0, ticks = 0, trace = [] \<rparr>"

text \<open>A server that answers every request at once with the same response; nothing else runs.\<close>

definition always :: "response \<Rightarrow> env" where
  "always r =
     \<lparr> net = (\<lambda>k url options. Responded r), latency = (\<lambda>k. 0), meanwhile = (\<lambda>k s. s) \<rparr>"

text \<open>A response with an empty body and no headers.\<close>

definition empty_response :: "int \<Rightarrow> string \<Rightarrow> response" where
  "empty_response s txt =
     \<lparr> status = s, statusText = txt, content_type = None, retry_after = None,
       body_text = Some [], body_json = None \<rparr>"

text \<open>A response whose body is the JSON text \<open>null\<close>.\<close>

definition null_response :: "int \<Rightarrow> string \<Rightarrow> response" where
  "null_response s txt =
     \<lparr> status = s, statusText = txt, content_type = Some ''application/json'',
       retry_after = None, body_text = Some ''null'', body_json = Some JNull \<rparr>"

text \<open>A JSON response.\<close>

definition json_response :: "int \<Rightarrow> string \<Rightarrow> string \<Rightarrow> json \<Rightarrow> response" where
  "json_response s txt raw j =
     \<lparr> status = s, statusText = txt, content_type = Some ''application/json'',
       retry_after = None, body_text = Some raw, body_json = Some j \<rparr>"

text \<open>A signed-in browser: both credentials are in \<open>localStorage\<close>.\<close>

definition signed_in :: world where
  "signed_in =
     fresh_world \<lparr> localStorage := [AUTH_TOKEN \<mapsto> ''t0'', USER_DATA \<mapsto> ''u0''] \<rparr>"

text \<open>
  A server that answers 503 and then 401, while another tab replaces the token during the
  first request.
\<close>

definition flaky_then_401 :: env where
  "flaky_then_401 =
     \<lparr> net = (\<lambda>k url options.
               if k = 0 then Responded (empty_response 503 ''Service Unavailable'')
               else Responded (empty_response 401 ''Unauthorized'')),
       latency = (\<lambda>k. 0),
       meanwhile = (\<lambda>k s. if k = 0 then s(AUTH_TOKEN \<mapsto> ''t1'') else s) \<rparr>"

text \<open>The url and options the request interceptors hand to \<open>makeRequest\<close>.\<close>

definition intercepted :: "ApiConfig \<Rightarrow> string \<Rightarrow> RequestOptions \<Rightarrow> world \<Rightarrow> string \<times> RequestOptions" where
  "intercepted cfg endpoint options w =
     fst (run_request_interceptors (requestInterceptors cfg)
            (full_url cfg endpoint) (with_content_type options) w)"

text \<open>A plain-text response.\<close>

definition text_response :: "int \<Rightarrow> string \<Rightarrow> string \<Rightarrow> response" where
  "text_response s txt raw =
     \<lparr> status = s, statusText = txt, content_type = Some ''text/plain'',
       retry_after = None, body_text = Some raw, body_json = None \<rparr>"

text \<open>Time passing between two calls.\<close>

definition later :: "int \<Rightarrow> world \<Rightarrow> world" where
  "later ms w = w \<lparr> now := now w + ms \<rparr>"

text \<open>
  An effect that \<open>makeRequest url options\<close> may add to the trace: no read of
  \<open>localStorage\<close>, and no \<open>fetch\<close> but of this url with these options.
\<close>

definition own_effect :: "string \<Rightarrow> RequestOptions \<Rightarrow> effect \<Rightarrow> bool" where
  "own_effect url options e = (\<not> is_LsGet e \<and> (is_Fetch e \<longrightarrow> e = Fetch url options))"

text \<open>The cache after a first \<open>GET /x\<close> with \<open>cacheTTL = 1000\<close>, answered by the text \<open>raw\<close>.\<close>

definition after_first_get :: "string \<Rightarrow> world" where
  "after_first_get raw =
     snd (get (always (text_response 200 ''OK'' raw)) (defaultApiConfig False) ''/x''
            (no_options \<lparr> opt_cacheTTL := Some 1000 \<rparr>) fresh_world)"

text \<open>The second \<open>GET /x\<close>, issued \<open>ms\<close> milliseconds after the first was cached.\<close>

definition second_get :: "string \<Rightarrow> int \<Rightarrow> (exn + json) \<times> world" where
  "second_get raw ms =
     get (always (text_response 200 ''OK'' raw)) (defaultApiConfig False) ''/x''
       (no_options \<lparr> opt_cacheTTL := Some 1000 \<rparr>) (later ms (after_first_get raw))"

section \<open>sse.ts\<close>

datatype ConnectionState = DISCONNECTED | CONNECTING | CONNECTED | RECONNECTING | ERROR

text \<open>\<open>EventSource.readyState\<close>: \<open>CONNECTING = 0\<close>, \<open>OPEN = 1\<close>, \<open>CLOSED = 2\<close>.\<close>

datatype readyState = ES_CONNECTING | ES_OPEN | ES_CLOSED

text \<open>The constants of \<open>sseConfig\<close>.\<close>

definition maxReconnectAttempts :: nat where "maxReconnectAttempts = 10"
definition initialReconnectDelay :: int where "initialReconnectDelay = 1000"
definition maxReconnectDelay :: int where "maxReconnectDelay = 30000"
definition heartbeatInterval :: int where "heartbeatInterval = 30000"
definition heartbeatTimeout :: int where "heartbeatTimeout = 45000"

text \<open>\<open>SSE_BASE_URL\<close> is \<open>VITE_SSE_URL\<close> when set; this is its fallback.\<close>

definition SSE_BASE_URL :: string where "SSE_BASE_URL = API_BASE_URL"

subsection \<open>The connection url\<close>

text \<open>
  \<open>encodeURIComponent\<close> on the UTF-8 bytes of a string: letters, digits and
  \<open>- _ . ! ~ * ' ( )\<close> stay, every other byte becomes \<open>%XX\<close>.
\<close>

definition unreserved :: "char \<Rightarrow> bool" where
  "unreserved c =
     (let n = (of_char c :: nat)
      in (65 \<le> n \<and> n \<le> 90) \<or> (97 \<le> n \<and> n \<le> 122) \<or> (48 \<le> n \<and> n \<le> 57)
         \<or> c \<in> set ''-_.!~*()'' \<or> n = 39)"

definition hex_digit :: "nat \<Rightarrow> char" where
  "hex_digit n = (if n < 10 then char_of (48 + n) else char_of (55 + n))"

definition percent_encode :: "char \<Rightarrow> string" where
  "percent_encode c =
     (if unreserved c then [c]
      else [CHR ''%'', hex_digit ((of_char c :: nat) div 16), hex_digit ((of_char c :: nat) mod 16)])"

definition encodeURIComponent :: "string \<Rightarrow> string" where
  "encodeURIComponent s = concat (map percent_encode s)"

definition stream_url :: "string list \<Rightarrow> string" where
  "stream_url resourceIds =
     SSE_BASE_URL @ ''/stream?resources='' @ encodeURIComponent (join_commas resourceIds)"

subsection \<open>The manager\<close>

text \<open>
  A callback is known by its identity only; what a callback does when it is invoked is not
  modelled (it does not call back into the manager), and each invocation is recorded.
\<close>

type_synonym callback = nat

record EventSource =
  es_url :: string
  es_readyState :: readyState

text \<open>
  The fields of \<open>SSEManager\<close>, and after them what the browser holds for it.

  \<open>subscriptions\<close> is the \<open>Map\<close> from resource identifier to \<open>Set\<close> of callbacks, both in
  insertion order.  \<open>reconnectTimeout\<close> is \<open>Some delay\<close> while the timer set by
  \<open>scheduleReconnect\<close> is pending (the field of the source keeps the identifier of a timer
  that has fired, which \<open>clearTimeout\<close> ignores).  \<open>heartbeatOn\<close> says that the
  interval behind \<open>heartbeatTimeout\<close> is running.

  \<open>eventSource\<close> is the object the manager refers to; \<open>released\<close> are the objects it
  referred to before, in the order they were made, each as the manager left it;
  \<open>opened\<close> are the urls of all successful \<open>new EventSource(url)\<close> calls.
  \<open>scheduled\<close> are the delays of all \<open>setTimeout\<close> calls of \<open>scheduleReconnect\<close>,
  \<open>invoked\<close> the callback invocations (callback, payload, event type), \<open>notified\<close> the
  states handed to the state listeners, \<open>clock\<close> is \<open>Date.now()\<close>.
\<close>

record SSEManager =
  eventSource :: "EventSource option"
  subscriptions :: "(string \<times> callback list) list"
  reconnectAttempts :: nat
  reconnectTimeout :: "int option"
  heartbeatOn :: bool
  isManualClose :: bool
  connectionState :: ConnectionState
  lastHeartbeat :: int
  released :: "EventSource list"
  opened :: "string list"
  scheduled :: "int list"
  invoked :: "(callback \<times> json \<times> string) list"
  notified :: "ConnectionState list"
  clock :: int

definition new_SSEManager :: "int \<Rightarrow> SSEManager" where
  "new_SSEManager t =
     \<lparr> eventSource = None, subscriptions = [], reconnectAttempts = 0, reconnectTimeout = None,
       heartbeatOn = False, isManualClose = False, connectionState = DISCONNECTED,
       lastHeartbeat = t, released = [], opened = [], scheduled = [], invoked = [],
       notified = [], clock = t \<rparr>"

definition setConnectionState :: "ConnectionState \<Rightarrow> SSEManager \<Rightarrow> SSEManager" where
  "setConnectionState st s =
     (if connectionState s \<noteq> st
      then s \<lparr> connectionState := st, notified := notified s @ [st] \<rparr>
      else s)"

definition stopHeartbeat :: "SSEManager \<Rightarrow> SSEManager" where
  "stopHeartbeat s = (if heartbeatOn s then s \<lparr> heartbeatOn := False \<rparr> else s)"

definition startHeartbeat :: "SSEManager \<Rightarrow> SSEManager" where
  "startHeartbeat s = (stopHeartbeat s) \<lparr> lastHeartbeat := clock s, heartbeatOn := True \<rparr>"

definition updateHeartbeat :: "SSEManager \<Rightarrow> SSEManager" where
  "updateHeartbeat s = s \<lparr> lastHeartbeat := clock s \<rparr>"

text \<open>\<open>this.eventSource && this.eventSource.readyState !== EventSource.CLOSED\<close>.\<close>

definition has_live_source :: "SSEManager \<Rightarrow> bool" where
  "has_live_source s =
     (case eventSource s of None \<Rightarrow> False | Some es \<Rightarrow> es_readyState es \<noteq> ES_CLOSED)"

definition scheduleReconnect :: "SSEManager \<Rightarrow> SSEManager" where
  "scheduleReconnect s =
     (let s0 = (if reconnectTimeout s \<noteq> None then s \<lparr> reconnectTimeout := None \<rparr> else s)
      in if reconnectAttempts s0 \<ge> maxReconnectAttempts then setConnectionState ERROR s0
         else
           (let delay = min (initialReconnectDelay * 2 ^ reconnectAttempts s0) maxReconnectDelay;
                s1 = s0 \<lparr> reconnectAttempts := Suc (reconnectAttempts s0) \<rparr>;
                s2 = setConnectionState RECONNECTING s1
            in s2 \<lparr> reconnectTimeout := Some delay, scheduled := scheduled s2 @ [delay] \<rparr>))"

text \<open>
  \<open>connect\<close>.  \<open>accepts url\<close> says that \<open>new EventSource(url)\<close> returns; otherwise it throws
  and the \<open>catch\<close> branch runs.  A closed source that the new one replaces is released.
\<close>

definition connect :: "(string \<Rightarrow> bool) \<Rightarrow> SSEManager \<Rightarrow> SSEManager" where
  "connect accepts s =
     (if has_live_source s then s
      else if length (subscriptions s) = 0 then s
      else
        (let s1 = setConnectionState CONNECTING s;
             url = stream_url (map fst (subscriptions s1))
         in if accepts url then
              s1 \<lparr> eventSource := Some \<lparr> es_url = url, es_readyState = ES_CONNECTING \<rparr>,
                   released := released s1 @ (case eventSource s1 of None \<Rightarrow> [] | Some old \<Rightarrow> [old]),
                   opened := opened s1 @ [url] \<rparr>
            else
              (let s2 = setConnectionState ERROR s1
               in if \<not> isManualClose s2 then scheduleReconnect s2 else s2)))"

definition disconnect :: "SSEManager \<Rightarrow> SSEManager" where
  "disconnect s =
     (let s1 = s \<lparr> isManualClose := True \<rparr>;
          s2 = (if reconnectTimeout s1 \<noteq> None then s1 \<lparr> reconnectTimeout := None \<rparr> else s1);
          s3 = stopHeartbeat s2;
          s4 = (case eventSource s3 of
                  None \<Rightarrow> s3
                | Some es \<Rightarrow>
                    s3 \<lparr> eventSource := None,
                         released := released s3 @ [es \<lparr> es_readyState := ES_CLOSED \<rparr>] \<rparr>);
          s5 = setConnectionState DISCONNECTED s4
      in s5 \<lparr> isManualClose := False \<rparr>)"

definition reconnect :: "(string \<Rightarrow> bool) \<Rightarrow> SSEManager \<Rightarrow> SSEManager" where
  "reconnect accepts s = connect accepts (disconnect s)"

subsection \<open>The subscription map\<close>

text \<open>\<open>subscriptions.get(resourceId)\<close>, with no callbacks for an absent key.\<close>

definition callbacks_of :: "SSEManager \<Rightarrow> string \<Rightarrow> callback list" where
  "callbacks_of s resourceId =
     (case map_of (subscriptions s) resourceId of None \<Rightarrow> [] | Some cbs \<Rightarrow> cbs)"

text \<open>
  \<open>if (!has(resourceId)) set(resourceId, new Set()); get(resourceId).add(callback)\<close>: a new
  key goes last, a callback already in the set is not added again.
\<close>

fun add_callback ::
  "string \<Rightarrow> callback \<Rightarrow> (string \<times> callback list) list \<Rightarrow> (string \<times> callback list) list" where
  "add_callback resourceId callback [] = [(resourceId, [callback])]"
| "add_callback resourceId callback ((k, cbs) # rest) =
     (if k = resourceId
      then (k, if callback \<in> set cbs then cbs else cbs @ [callback]) # rest
      else (k, cbs) # add_callback resourceId callback rest)"

text \<open>
  The first half of the unsubscribe function: the callback leaves the set of its key,
  and a key whose set is empty then leaves the map.
\<close>

fun remove_callback ::
  "string \<Rightarrow> callback \<Rightarrow> (string \<times> callback list) list \<Rightarrow> (string \<times> callback list) list" where
  "remove_callback resourceId callback [] = []"
| "remove_callback resourceId callback ((k, cbs) # rest) =
     (if k = resourceId
      then (if removeAll callback cbs = [] then rest else (k, removeAll callback cbs) # rest)
      else (k, cbs) # remove_callback resourceId callback rest)"

definition subscribe :: "(string \<Rightarrow> bool) \<Rightarrow> string \<Rightarrow> callback \<Rightarrow> SSEManager \<Rightarrow> SSEManager" where
  "subscribe accepts resourceId callback s =
     (let isNewResource = (map_of (subscriptions s) resourceId = None);
          s1 = s \<lparr> subscriptions := add_callback resourceId callback (subscriptions s) \<rparr>
      in if isNewResource \<and> has_live_source s1 then reconnect accepts s1
         else connect accepts s1)"

text \<open>The function \<open>subscribe resourceId callback\<close> returns.\<close>

definition unsubscribe :: "(string \<Rightarrow> bool) \<Rightarrow> string \<Rightarrow> callback \<Rightarrow> SSEManager \<Rightarrow> SSEManager" where
  "unsubscribe accepts resourceId callback s =
     (let s1 = s \<lparr> subscriptions := remove_callback resourceId callback (subscriptions s) \<rparr>
      in if length (subscriptions s1) = 0 then disconnect s1
         else reconnect accepts s1)"

definition destroy :: "SSEManager \<Rightarrow> SSEManager" where
  "destroy s = (disconnect s) \<lparr> subscriptions := [] \<rparr>"

subsection \<open>Inbound frames\<close>

definition notifySubscribers :: "string \<Rightarrow> json \<Rightarrow> string \<Rightarrow> SSEManager \<Rightarrow> SSEManager" where
  "notifySubscribers resourceId event eventType s =
     s \<lparr> invoked := invoked s @ map (\<lambda>callback. (callback, event, eventType))
                                   (callbacks_of s resourceId) \<rparr>"

text \<open>The event names \<open>registerEventHandlers\<close> listens to, \<open>message\<close> through \<open>onmessage\<close>.\<close>

definition listened :: "string list" where
  "listened =
     [''status_update'', ''post_update'', ''video_status'',
      ''agent_thinking'', ''agent_action'', ''agent_question'', ''agent_complete'',
      ''agent_error'',
      ''orch_planning'', ''orch_plan_ready'', ''orch_researching'', ''orch_research_ready'',
      ''orch_generating'', ''orch_post_ready'', ''orch_question'', ''orch_error'',
      ''message'']"

text \<open>
  One frame of the stream: its event name and what \<open>JSON.parse\<close> makes of its data
  (\<open>None\<close>: it throws).  The handlers update the heartbeat, parse, and notify under
  \<open>payload.resource_id\<close>; a parse error or a payload \<open>null\<close> is caught and logged.  A
  \<open>resource_id\<close> that is no string is no key of the map.  The listener for \<open>connected\<close>
  has no \<open>try\<close>: it parses, reads \<open>data.resources\<close> and only then updates the heartbeat,
  so a parse error or a payload \<open>null\<close> ends it before the update.  A frame with any
  other name has no listener.
\<close>

definition on_frame :: "string \<Rightarrow> json option \<Rightarrow> SSEManager \<Rightarrow> SSEManager" where
  "on_frame name parsed s =
     (if name = ''connected'' then
        (case parsed of
           None \<Rightarrow> s
         | Some d \<Rightarrow> (case props d of None \<Rightarrow> s | Some prop \<Rightarrow> updateHeartbeat s))
      else if name \<in> set listened then
        (let s1 = updateHeartbeat s
         in case parsed of
              None \<Rightarrow> s1
            | Some payload \<Rightarrow>
                (case props payload of
                   None \<Rightarrow> s1
                 | Some prop \<Rightarrow>
                     (case prop ''resource_id'' of
                        Some (JStr resourceId) \<Rightarrow> notifySubscribers resourceId payload name s1
                      | _ \<Rightarrow> s1)))
      else s)"

subsection \<open>What can happen to a manager\<close>

text \<open>
  Calls by the application (\<open>Subscribe\<close>, \<open>Unsubscribe\<close>, \<open>Disconnect\<close>, \<open>Destroy\<close>) and
  callbacks by the browser: \<open>OnOpen\<close> and \<open>OnError\<close> of the current source (\<open>OnError True\<close>
  leaves it closed, \<open>OnError False\<close> leaves it connecting again by itself), a \<open>Frame\<close> on
  it, the reconnect timer and the heartbeat interval firing, and time passing.
\<close>

datatype sse_event =
    Subscribe string callback
  | Unsubscribe string callback
  | Disconnect
  | Destroy
  | OnOpen
  | OnError bool
  | Frame string "json option"
  | ReconnectTimer
  | HeartbeatTick
  | Elapse int

definition on_open :: "SSEManager \<Rightarrow> SSEManager" where
  "on_open s =
     (let s1 = setConnectionState CONNECTED s;
          s2 = s1 \<lparr> reconnectAttempts := 0 \<rparr>
      in startHeartbeat s2)"

definition on_error :: "SSEManager \<Rightarrow> SSEManager" where
  "on_error s =
     (let s1 = setConnectionState ERROR s;
          s2 = stopHeartbeat s1
      in case eventSource s2 of
           None \<Rightarrow> s2
         | Some es \<Rightarrow>
             if es_readyState es = ES_CLOSED then
               (if \<not> isManualClose s2 then scheduleReconnect s2 else s2)
             else s2)"

definition on_heartbeat_tick :: "(string \<Rightarrow> bool) \<Rightarrow> SSEManager \<Rightarrow> SSEManager" where
  "on_heartbeat_tick accepts s =
     (if clock s - lastHeartbeat s > heartbeatTimeout then reconnect accepts s else s)"

text \<open>
  The browser opens only a source that is connecting, delivers frames only while it is
  open, and fires only timers that are pending.  It raises \<open>error\<close> on a source that is
  not closed; \<open>onerror\<close> may also be called on a closed source (a test double does that),
  which is closed then whatever the error.
\<close>

fun step :: "(string \<Rightarrow> bool) \<Rightarrow> sse_event \<Rightarrow> SSEManager \<Rightarrow> SSEManager" where
  "step accepts (Subscribe resourceId callback) s = subscribe accepts resourceId callback s"
| "step accepts (Unsubscribe resourceId callback) s = unsubscribe accepts resourceId callback s"
| "step accepts Disconnect s = disconnect s"
| "step accepts Destroy s = destroy s"
| "step accepts OnOpen s =
     (case eventSource s of
        None \<Rightarrow> s
      | Some es \<Rightarrow>
          if es_readyState es = ES_CONNECTING
          then on_open (s \<lparr> eventSource := Some (es \<lparr> es_readyState := ES_OPEN \<rparr>) \<rparr>)
          else s)"
| "step accepts (OnError fatal) s =
     (case eventSource s of
        None \<Rightarrow> s
      | Some es \<Rightarrow>
          on_error (s \<lparr> eventSource :=
            Some (es \<lparr> es_readyState :=
                         (if fatal \<or> es_readyState es = ES_CLOSED then ES_CLOSED
                          else ES_CONNECTING) \<rparr>) \<rparr>))"
| "step accepts (Frame name parsed) s =
     (case eventSource s of
        None \<Rightarrow> s
      | Some es \<Rightarrow> if es_readyState es = ES_OPEN then on_frame name parsed s else s)"
| "step accepts ReconnectTimer s =
     (case reconnectTimeout s of
        None \<Rightarrow> s
      | Some delay \<Rightarrow> reconnect accepts (s \<lparr> reconnectTimeout := None \<rparr>))"
| "step accepts HeartbeatTick s = (if heartbeatOn s then on_heartbeat_tick accepts s else s)"
| "step accepts (Elapse ms) s = s \<lparr> clock := clock s + ms \<rparr>"

fun run :: "(string \<Rightarrow> bool) \<Rightarrow> sse_event list \<Rightarrow> SSEManager \<Rightarrow> SSEManager" where
  "run accepts [] s = s"
| "run accepts (ev # evs) s = run accepts evs (step accepts ev s)"

text \<open>The sources that exist and are not closed: the open physical connections.\<close>

definition live_sources :: "SSEManager \<Rightarrow> EventSource list" where
  "live_sources s =
     filter (\<lambda>es. es_readyState es \<noteq> ES_CLOSED)
       (released s @ (case eventSource s of None \<Rightarrow> [] | Some es \<Rightarrow> [es]))"

text \<open>Browser callbacks, as opposed to calls by the application.\<close>

fun from_browser :: "sse_event \<Rightarrow> bool" where
  "from_browser (Subscribe resourceId callback) = False"
| "from_browser (Unsubscribe resourceId callback) = False"
| "from_browser Disconnect = False"
| "from_browser Destroy = False"
| "from_browser ev = True"

text \<open>The delay \<open>scheduleReconnect\<close> computes before reconnect attempt \<open>n\<close>, counted from 1.\<close>

definition backoff :: "nat \<Rightarrow> int" where
  "backoff n = min (initialReconnectDelay * 2 ^ (n - 1)) maxReconnectDelay"

text \<open>
  What happens while the transport only fails: errors that leave the source closed, the
  reconnect timer and the heartbeat interval firing, and time passing.
\<close>

fun transport_failure :: "sse_event \<Rightarrow> bool" where
  "transport_failure (OnError fatal) = fatal"
| "transport_failure ReconnectTimer = True"
| "transport_failure HeartbeatTick = True"
| "transport_failure (Elapse ms) = True"
| "transport_failure ev = False"

text \<open>Twelve transport errors in a row, each followed by the reconnect timer if one is set.\<close>

definition twelve_errors :: "sse_event list" where
  "twelve_errors = concat (replicate 12 [OnError True, ReconnectTimer])"

text \<open>Twelve transport errors in a row after each of which the browser reconnects by itself.\<close>

definition twelve_retried_errors :: "sse_event list" where
  "twelve_retried_errors = replicate 12 (OnError False)"

text \<open>
  The registrations in force after a history of calls, in the words of the interface:
  \<open>subscribe\<close> registers a callback under an identifier, the function it returns removes
  that registration, \<open>destroy\<close> removes all, and nothing else changes them.
\<close>

fun subscribed_after :: "sse_event \<Rightarrow> (string \<times> callback) set \<Rightarrow> (string \<times> callback) set" where
  "subscribed_after (Subscribe resourceId callback) P = insert (resourceId, callback) P"
| "subscribed_after (Unsubscribe resourceId callback) P = P - {(resourceId, callback)}"
| "subscribed_after Destroy P = {}"
| "subscribed_after ev P = P"

definition currently_subscribed :: "sse_event list \<Rightarrow> (string \<times> callback) set" where
  "currently_subscribed evs = foldl (\<lambda>P ev. subscribed_after ev P) {} evs"

text \<open>The source the manager refers to, as a list.\<close>

definition current :: "SSEManager \<Rightarrow> EventSource list" where
  "current s = (case eventSource s of None \<Rightarrow> [] | Some es \<Rightarrow> [es])"

text \<open>
  Every source the manager let go of is closed, and the released sources and the current
  one are all the sources that were ever made, in that order.
\<close>

definition sources_inv :: "SSEManager \<Rightarrow> bool" where
  "sources_inv s =
     ((\<forall>es \<in> set (released s). es_readyState es = ES_CLOSED)
      \<and> map es_url (released s @ current s) = opened s)"

text \<open>An \<open>EventSource\<close> constructor that takes every url.\<close>

definition any_url :: "string \<Rightarrow> bool" where
  "any_url url = True"

text \<open>The \<open>resource_id\<close> of a payload, when it is a string.\<close>

definition resource_id_of :: "json \<Rightarrow> string option" where
  "resource_id_of payload =
     (case props payload of
        None \<Rightarrow> None
      | Some prop \<Rightarrow> (case prop ''resource_id'' of Some (JStr r) \<Rightarrow> Some r | _ \<Rightarrow> None))"

text \<open>A payload for the resource \<open>r\<close>.\<close>

definition payload_for :: "string \<Rightarrow> json \<Rightarrow> json" where
  "payload_for r d = JObj [(''resource_id'', JStr r), (''data'', d)]"

text \<open>The invocations a run added.\<close>

definition invoked_since :: "SSEManager \<Rightarrow> SSEManager \<Rightarrow> (callback \<times> json \<times> string) list" where
  "invoked_since s s' = drop (length (invoked s)) (invoked s')"

text \<open>A manager with one subscription whose connection is open.\<close>

definition connected_manager :: SSEManager where
  "connected_manager = run any_url [Subscribe ''session:1'' 1, OnOpen] (new_SSEManager 0)"

text \<open>
  A manager that has given up: no source that is not closed, no reconnect timer pending,
  no heartbeat interval running, the reconnect attempts used up and the state \<open>ERROR\<close>.
\<close>

definition gave_up :: "SSEManager \<Rightarrow> bool" where
  "gave_up s =
     (\<not> has_live_source s \<and> reconnectTimeout s = None \<and> \<not> heartbeatOn s
      \<and> maxReconnectAttempts \<le> reconnectAttempts s \<and> connectionState s = ERROR)"

text \<open>
  Callback 1 on \<open>session:1\<close> and callback 2 on \<open>session:2\<close>, the connection open; and a
  \<open>status_update\<close> frame for \<open>session:1\<close>.
\<close>

definition two_subscribers :: SSEManager where
  "two_subscribers =
     run any_url [Subscribe ''session:1'' 1, Subscribe ''session:2'' 2, OnOpen] (new_SSEManager 0)"

definition status_frame :: sse_event where
  "status_frame = Frame ''status_update'' (Some (payload_for ''session:1'' JNull))"

text \<open>
  A frame for \<open>session:1\<close> under \<open>agent_status\<close>, a name of \<open>SSEEventType\<close> that
  \<open>registerEventHandlers\<close> adds no listener for.
\<close>

definition agent_status_frame :: sse_event where
  "agent_status_frame = Frame ''agent_status'' (Some (payload_for ''session:1'' JNull))"

text \<open>A frame for \<open>session:1\<close> under \<open>ping\<close>, a name the source does not mention.\<close>

definition ping_frame :: sse_event where
  "ping_frame = Frame ''ping'' (Some (payload_for ''session:1'' JNull))"

text \<open>
  Callbacks 1 and 3 on \<open>session:1\<close> and callback 2 on \<open>session:2\<close>, the connection open;
  and the same after callback 1 has unsubscribed and the new connection is open.
\<close>

definition shared_history :: "sse_event list" where
  "shared_history =
     [Subscribe ''session:1'' 1, Subscribe ''session:2'' 2, Subscribe ''session:1'' 3, OnOpen]"

definition shared_resource :: SSEManager where
  "shared_resource = run any_url shared_history (new_SSEManager 0)"

definition one_left_history :: "sse_event list" where
  "one_left_history = shared_history @ [Unsubscribe ''session:1'' 1, OnOpen]"

definition one_left :: SSEManager where
  "one_left = run any_url one_left_history (new_SSEManager 0)"

section \<open>The workflow components\<close>

text \<open>
  What a handler of a component does besides computing the next component state, in
  order: calls of an unsubscribe function returned by \<open>SSEManager.subscribe\<close> (named by
  the channel it was subscribed to) and of \<open>subscribe\<close>, requests through the HTTP client,
  writes to \<open>localStorage\<close>, and calls of React state setters (named by their state
  variable; the value set is in the next state).
\<close>

datatype flow_effect =
    CallUnsubscribe string
  | CallSubscribe string
  | HttpDelete string
  | RemoveItem string
  | SetItem string string
  | SetState string

fun is_RemoveItem :: "flow_effect \<Rightarrow> bool" where
  "is_RemoveItem (RemoveItem k) = True"
| "is_RemoveItem e = False"

text \<open>\<open>x\<close> occurs in the list and \<open>y\<close> occurs after its first occurrence.\<close>

definition precedes :: "'a \<Rightarrow> 'a \<Rightarrow> 'a list \<Rightarrow> bool" where
  "precedes x y xs = (x \<in> set xs \<and> y \<in> set (dropWhile (\<lambda>e. e \<noteq> x) xs) \<and> x \<noteq> y)"

subsection \<open>OrchestratorFlow.tsx\<close>

datatype SubTaskStatus = ST_pending | ST_in_progress | ST_complete | ST_failed

record SubTask =
  task_id :: string
  task_name :: string
  queries :: "string list"
  task_status :: SubTaskStatus
  task_error :: "string option"

datatype OrchestratorPhase =
  P_planning | P_plan_review | P_research | P_selection | P_generation | P_complete | P_error

text \<open>
  The session as the server sends it, with the fields the modelled code reads.
  \<open>research_plan\<close> is \<open>None\<close> when the field is missing or \<open>null\<close>.
\<close>

record OrchestratorSession =
  session_id :: string
  influencer_id :: string
  phase :: OrchestratorPhase
  research_plan :: "SubTask list option"

text \<open>
  The state variables of the component; \<open>unsubRef\<close> is the channel whose unsubscribe
  function the ref holds, \<open>None\<close> for \<open>null\<close>.
\<close>

record OrchestratorFlow =
  sessionId :: string
  currentStep :: nat
  session :: "OrchestratorSession option"
  loading :: bool
  statusMsg :: "string option"
  error :: "string option"
  query :: string
  postTypeHint :: string
  editingPlan :: "SubTask list"
  selectedWebIds :: "string list"
  selectedImageIds :: "string list"
  unsubRef :: "string option"

definition STORAGE_KEY_PREFIX :: string where
  "STORAGE_KEY_PREFIX = ''orch_session_''"

definition ORCHESTRATOR_SESSION :: "string \<Rightarrow> string" where
  "ORCHESTRATOR_SESSION sid = ''/orchestrator/'' @ sid"

definition orchestrator_channel :: "string \<Rightarrow> string" where
  "orchestrator_channel sid = ''orchestrator:'' @ sid"

text \<open>
  \<open>handleReset\<close>.  \<open>newId\<close> is what \<open>generateSessionId\<close> returns, \<open>deleted\<close> whether the
  awaited \<open>resetSession\<close> resolved; its rejection is caught and ignored.
\<close>

definition handleReset ::
  "string \<Rightarrow> string \<Rightarrow> bool \<Rightarrow> OrchestratorFlow \<Rightarrow> OrchestratorFlow \<times> flow_effect list" where
  "handleReset influencerId newId deleted st =
     (st \<lparr> unsubRef := None, sessionId := newId, session := None, currentStep := 1,
          query := [], postTypeHint := [], editingPlan := [], selectedWebIds := [],
          selectedImageIds := [], error := None, loading := False, statusMsg := None \<rparr>,
      (case unsubRef st of None \<Rightarrow> [] | Some channel \<Rightarrow> [CallUnsubscribe channel])
      @ [HttpDelete (ORCHESTRATOR_SESSION (sessionId st))]
      @ [RemoveItem (STORAGE_KEY_PREFIX @ influencerId),
         SetItem (STORAGE_KEY_PREFIX @ influencerId) newId]
      @ map SetState
          [''sessionId'', ''session'', ''currentStep'', ''query'', ''postTypeHint'',
           ''editingPlan'', ''selectedWebIds'', ''selectedImageIds'', ''error'', ''loading'',
           ''statusMsg''])"

text \<open>
  The effect \<open>useEffect(() => { if (session?.research_plan) setEditingPlan(...) },
  [session?.research_plan])\<close>.  It runs after every render in which the plan is another
  array object, which it is after every fetch of the session (the fetch skips the cache).
\<close>

definition sync_editingPlan :: "OrchestratorFlow \<Rightarrow> OrchestratorFlow" where
  "sync_editingPlan st =
     (case session st of
        None \<Rightarrow> st
      | Some sess \<Rightarrow>
          (case research_plan sess of
             None \<Rightarrow> st
           | Some plan \<Rightarrow> st \<lparr> editingPlan := plan \<rparr>))"

text \<open>
  \<open>refreshSession\<close>, with the render that follows it: \<open>fetched\<close> is what
  \<open>getOrchestratorSession\<close> resolves to, \<open>None\<close> when it rejects (which is ignored).
\<close>

definition refreshSession :: "OrchestratorSession option \<Rightarrow> OrchestratorFlow \<Rightarrow> OrchestratorFlow" where
  "refreshSession fetched st =
     (case fetched of
        None \<Rightarrow> st
      | Some sess \<Rightarrow> sync_editingPlan (st \<lparr> session := Some sess \<rparr>))"

text \<open>
  The data of a push event as far as \<open>handleSSE\<close> reads it: its \<open>message\<close>, and whether
  \<open>slide_urls\<close> is there (on \<open>orch_post_ready\<close> the handler then calls the \<open>onComplete\<close>
  property, which is left out here: it is no part of the component state).
\<close>

record push_data =
  pd_message :: "string option"
  pd_slide_urls :: bool

text \<open>The UTF-8 bytes of the ellipsis that ends the default status messages.\<close>

definition ellipsis :: string where
  "ellipsis = [CHR 0xE2, CHR 0x80, CHR 0xA6]"

definition message_or :: "push_data option \<Rightarrow> string \<Rightarrow> string" where
  "message_or d dflt =
     (case d of
        None \<Rightarrow> dflt
      | Some pd \<Rightarrow> (case pd_message pd of None \<Rightarrow> dflt | Some m \<Rightarrow> m))"

text \<open>
  \<open>handleSSE\<close> with the \<open>refreshSession\<close> it starts, up to the render after the fetch
  has settled.
\<close>

definition handleSSE ::
  "string \<Rightarrow> push_data option \<Rightarrow> OrchestratorSession option \<Rightarrow> OrchestratorFlow
     \<Rightarrow> OrchestratorFlow" where
  "handleSSE eventType d fetched st =
     (if eventType = ''orch_planning'' then
        st \<lparr> statusMsg := Some (message_or d (''Planning research'' @ ellipsis)) \<rparr>
      else if eventType = ''orch_plan_ready'' then
        refreshSession fetched (st \<lparr> currentStep := 2, loading := False, statusMsg := None \<rparr>)
      else if eventType = ''orch_researching'' then
        st \<lparr> statusMsg := Some (message_or d (''Searching the web'' @ ellipsis)) \<rparr>
      else if eventType = ''orch_research_ready'' then
        refreshSession fetched (st \<lparr> currentStep := 3, loading := False, statusMsg := None \<rparr>)
      else if eventType = ''orch_generating'' then
        st \<lparr> statusMsg := Some (message_or d (''Generating your post'' @ ellipsis)) \<rparr>
      else if eventType = ''orch_post_ready'' then
        refreshSession fetched (st \<lparr> currentStep := 4, loading := False, statusMsg := None \<rparr>)
      else if eventType = ''orch_error'' then
        st \<lparr> error := Some (case message_or d [] of [] \<Rightarrow> ''Something went wrong'' | m \<Rightarrow> m),
             loading := False, statusMsg := None \<rparr>
      else st)"

text \<open>The event types whose handling fetches the session again.\<close>

definition refreshes :: "string \<Rightarrow> bool" where
  "refreshes eventType =
     (eventType \<in> set [''orch_plan_ready'', ''orch_research_ready'', ''orch_post_ready''])"

text \<open>\<open>updateSubTask\<close>: a local edit of the plan.\<close>

definition rename_task :: "string \<Rightarrow> string \<Rightarrow> SubTask list \<Rightarrow> SubTask list" where
  "rename_task tid new_name plan =
     map (\<lambda>t. if task_id t = tid then t \<lparr> task_name := new_name \<rparr> else t) plan"

subsection \<open>CreationFlow.tsx\<close>

datatype Step =
  S_input | S_generating_images | S_select_avatar | S_generating_persona | S_review | S_complete

datatype CreationStatus =
    CS_pending | CS_generating_images | CS_images_ready | CS_generating_persona
  | CS_persona_ready | CS_complete | CS_failed

record CreationSession =
  cs_id :: string
  cs_status :: CreationStatus
  cs_location :: string
  cs_prompt :: string

text \<open>The state variables of the creation flow that \<open>handleDiscard\<close> touches.\<close>

record CreationFlow =
  cf_step :: Step
  cf_location :: string
  cf_prompt :: string
  cf_session :: "CreationSession option"
  cf_selectedAvatar :: "string option"
  cf_error :: "string option"

definition CREATION_SESSION :: "string \<Rightarrow> string" where
  "CREATION_SESSION sid = ''/creation/'' @ sid"

text \<open>
  \<open>handleDiscard\<close>.  \<open>failure\<close> is \<open>None\<close> when the awaited \<open>discardSession\<close> resolves and the
  message of the error when it rejects.
\<close>

definition handleDiscard ::
  "string option \<Rightarrow> CreationFlow \<Rightarrow> CreationFlow \<times> flow_effect list" where
  "handleDiscard failure st =
     (case cf_session st of
        None \<Rightarrow> (st, [])
      | Some sess \<Rightarrow>
          (case failure of
             None \<Rightarrow>
               (st \<lparr> cf_session := None, cf_step := S_input, cf_location := [], cf_prompt := [],
                     cf_selectedAvatar := None, cf_error := None \<rparr>,
                HttpDelete (CREATION_SESSION (cs_id sess))
                # map SetState [''session'', ''step'', ''location'', ''prompt'', ''selectedAvatar'',
                                ''error''])
           | Some msg \<Rightarrow>
               (st \<lparr> cf_error := Some msg \<rparr>,
                [HttpDelete (CREATION_SESSION (cs_id sess)), SetState ''error''])))"

text \<open>
  The resource the component passes to \<open>useSSESubscription\<close>:
  \<open>session?.id ? `session:${session.id}` : null\<close>.
\<close>

definition subscribed_resource :: "CreationFlow \<Rightarrow> string option" where
  "subscribed_resource st =
     (case cf_session st of
        None \<Rightarrow> None
      | Some sess \<Rightarrow> if cs_id sess \<noteq> [] then Some (''session:'' @ cs_id sess) else None)"

text \<open>
  The effect of \<open>useSSESubscription\<close> at the render after a state change: when the resource
  is another one, the cleanup of the old effect unsubscribes and the new effect
  subscribes.
\<close>

definition useSSESubscription :: "string option \<Rightarrow> string option \<Rightarrow> flow_effect list" where
  "useSSESubscription old new =
     (if old = new then []
      else (case old of None \<Rightarrow> [] | Some r \<Rightarrow> [CallUnsubscribe r])
           @ (case new of None \<Rightarrow> [] | Some r \<Rightarrow> [CallSubscribe r]))"

text \<open>\<open>handleDiscard\<close> and the render that follows it.\<close>

definition discard_and_render ::
  "string option \<Rightarrow> CreationFlow \<Rightarrow> CreationFlow \<times> flow_effect list" where
  "discard_and_render failure st =
     (case handleDiscard failure st of
        (st', effects) \<Rightarrow>
          (st', effects @ useSSESubscription (subscribed_resource st) (subscribed_resource st')))"

subsection \<open>Concrete component states\<close>

definition a_task :: "string \<Rightarrow> string \<Rightarrow> SubTask" where
  "a_task tid nm =
     \<lparr> task_id = tid, task_name = nm, queries = [''q''], task_status = ST_pending,
       task_error = None \<rparr>"

text \<open>
  The orchestrator flow at plan review of session \<open>s1\<close>, the user having renamed task
  \<open>t1\<close> from \<open>server name\<close> to \<open>my edit\<close>; and the session as the server has it.
\<close>

definition server_session :: OrchestratorSession where
  "server_session =
     \<lparr> session_id = ''s1'', influencer_id = ''inf'', phase = P_plan_review,
       research_plan = Some [a_task ''t1'' ''server name''] \<rparr>"

definition editing_flow :: OrchestratorFlow where
  "editing_flow =
     \<lparr> sessionId = ''s1'', currentStep = 2, session = Some server_session, loading = False,
       statusMsg = None, error = None, query = ''tokyo'', postTypeHint = [],
       editingPlan = rename_task ''t1'' ''my edit'' [a_task ''t1'' ''server name''],
       selectedWebIds = [], selectedImageIds = [],
       unsubRef = Some (orchestrator_channel ''s1'') \<rparr>"

text \<open>The creation flow at avatar selection of session \<open>c1\<close>.\<close>

definition selecting_flow :: CreationFlow where
  "selecting_flow =
     \<lparr> cf_step = S_select_avatar, cf_location = ''Tokyo, Japan'', cf_prompt = ''tech'',
       cf_session = Some \<lparr> cs_id = ''c1'', cs_status = CS_images_ready,
                           cs_location = ''Tokyo, Japan'', cs_prompt = ''tech'' \<rparr>,
       cf_selectedAvatar = None, cf_error = None \<rparr>"

text \<open>The same with a session whose identifier is the empty string.\<close>

definition nameless_flow :: CreationFlow where
  "nameless_flow =
     selecting_flow \<lparr> cf_session := Some \<lparr> cs_id = [], cs_status = CS_images_ready,
                                            cs_location = ''Tokyo, Japan'', cs_prompt = ''tech'' \<rparr> \<rparr>"

section \<open>Properties of the HTTP client\<close>

subsection \<open>The classifier\<close>

lemmas new_error_defs =
  mk_error_def new_NetworkError_def new_TimeoutError_def new_UnauthorizedError_def
  new_ForbiddenError_def new_NotFoundError_def new_ValidationError_def new_RateLimitError_def
  new_ServerError_def

lemma parseErrorResponse_statusCode:
  "parseErrorResponse r = Some e \<Longrightarrow> statusCode e = status r"
  by (auto simp: parseErrorResponse_def Let_def HTTP_STATUS_defs new_error_defs
      split: option.splits if_splits)

lemma parseErrorResponse_class:
  "parseErrorResponse r = Some e \<Longrightarrow>
     err_class e \<noteq> AbortError \<and> err_class e \<noteq> NetworkError \<and> err_class e \<noteq> TimeoutError"
  by (auto simp: parseErrorResponse_def Let_def new_error_defs split: option.splits if_splits)

lemma parseErrorResponse_None:
  "parseErrorResponse r = None \<longleftrightarrow> errorData_of r = JNull"
  by (cases "errorData_of r") (simp_all add: parseErrorResponse_def Let_def)

text \<open>
  What the classifier does on the statuses it names, for a body that does not parse to
  \<open>null\<close>.
\<close>

lemma parseErrorResponse_named:
  assumes "parseErrorResponse r = Some e"
  shows "status r = 401 \<Longrightarrow> err_class e = UnauthorizedError"
    and "status r = 403 \<Longrightarrow> err_class e = ForbiddenError"
    and "status r = 404 \<Longrightarrow> err_class e = NotFoundError"
    and "status r = 422 \<Longrightarrow> err_class e = ValidationError"
    and "status r = 429 \<Longrightarrow> err_class e = RateLimitError \<and> isRetryableError e"
    and "status r \<in> {500, 502, 503, 504} \<Longrightarrow> err_class e = ServerError \<and> isRetryableError e"
  using assms
  by (auto simp: parseErrorResponse_def Let_def HTTP_STATUS_defs new_error_defs
        isRetryableError_def split: option.splits if_splits)

lemma parseErrorResponse_422_errors:
  assumes "status r = 422" "errorData_of r = JObj kvs"
  shows "\<exists>e. parseErrorResponse r = Some e \<and> err_class e = ValidationError
           \<and> errors e = map_of kvs ''errors''"
  using assms
  by (simp add: parseErrorResponse_def Let_def HTTP_STATUS_defs new_error_defs)

lemma parseErrorResponse_429_retryAfter:
  assumes "status r = 429" "parseErrorResponse r = Some e"
  shows "retryAfter e =
           (case retry_after r of None \<Rightarrow> NoHint
            | Some ra \<Rightarrow> if ra \<noteq> [] then parseInt10 ra else NoHint)"
  using assms
  by (auto simp: parseErrorResponse_def Let_def HTTP_STATUS_defs new_error_defs
      split: option.splits)

text \<open>
  C6.  The claim has every 5xx status classified as a retryable \<open>ServerError\<close>, and so do the
  comments of \<open>errors.ts\<close> (``Server Error - 5xx'', ``Retry network errors, timeouts, and 5xx
  errors'').  The switch names 500, 502, 503 and 504 only: a 501 response falls to the
  default branch, a plain \<open>ApiError\<close> that is not retried.
\<close>

theorem parseErrorResponse_501_not_ServerError:
  "parseErrorResponse (empty_response 501 ''Not Implemented'') =
     Some (mk_error ApiError (JStr ''Not Implemented'') 501 None None None)
   \<and> err_class (mk_error ApiError (JStr ''Not Implemented'') 501 None None None) \<noteq> ServerError
   \<and> \<not> isRetryableError (mk_error ApiError (JStr ''Not Implemented'') 501 None None None)"
  by (simp add: parseErrorResponse_def empty_response_def errorData_of_def Let_def
      HTTP_STATUS_defs mk_error_def isRetryableError_def js_or_def js_or_else_def)

subsection \<open>One attempt\<close>

lemma do_fetch_trace:
  "trace (snd (do_fetch E url options tmo w)) = trace w @ [Fetch url options]"
  by (simp add: do_fetch_def Let_def)

lemma unauthorized_handler_trace:
  "trace (unauthorized_handler e w) =
     trace w @ (if statusCode e = UNAUTHORIZED
                then [LsRemove AUTH_TOKEN, LsRemove USER_DATA, Dispatch ''auth:logout''] else [])"
  by (simp add: unauthorized_handler_def)

lemma attempt_once_retryable:
  assumes "latency E (ticks w) \<le> num_or (opt_timeout options) (timeout cfg)"
      and "net E (ticks w) url options = Responded r"
      and "\<not> ok r"
      and "parseErrorResponse r = Some e"
      and "isRetryableError e"
      and "statusCode e \<noteq> UNAUTHORIZED"
  shows "fst (attempt_once E cfg url options attempt w) =
           (if int attempt < num_nullish (opt_retryAttempts options) (retryAttempts cfg)
            then Retry (num_or (opt_retryDelay options) (retryDelay cfg) * 2 ^ (attempt - 1))
            else Throw (Api e))"
    and "trace (snd (attempt_once E cfg url options attempt w)) = trace w @ [Fetch url options]"
  using assms parseErrorResponse_class [of r e]
  by (auto simp: attempt_once_def Let_def do_fetch_def catch_clause_def unauthorized_handler_def
      split: prod.splits)

subsection \<open>Retries against a server that always answers 503\<close>

lemma parseErrorResponse_503:
  assumes "status r = SERVICE_UNAVAILABLE" "errorData_of r \<noteq> JNull"
  shows "\<exists>e. parseErrorResponse r = Some e \<and> err_class e = ServerError \<and> statusCode e = 503"
proof -
  obtain e where e: "parseErrorResponse r = Some e"
    using assms(2) parseErrorResponse_None [of r] by (cases "parseErrorResponse r") auto
  then show ?thesis
    using parseErrorResponse_named(6) [OF e] parseErrorResponse_statusCode [OF e] assms(1)
    by (simp add: HTTP_STATUS_defs)
qed

lemma makeRequest_503_run:
  assumes ra: "opt_retryAttempts options = Some 3"
      and net: "\<forall>k. net E k url options = Responded r"
      and st: "status r = SERVICE_UNAVAILABLE"
      and body: "errorData_of r \<noteq> JNull"
      and intime: "\<forall>k. latency E k \<le> num_or (opt_timeout options) (timeout cfg)"
  shows "\<exists>e. parseErrorResponse r = Some e \<and> err_class e = ServerError \<and> statusCode e = 503
           \<and> fst (makeRequest E cfg url options 1 w) = Inl (Api e)
           \<and> trace (snd (makeRequest E cfg url options 1 w)) =
               trace w @ [Fetch url options,
                          Sleep (num_or (opt_retryDelay options) (retryDelay cfg)),
                          Fetch url options,
                          Sleep (num_or (opt_retryDelay options) (retryDelay cfg) * 2),
                          Fetch url options]"
proof -
  define d where "d = num_or (opt_retryDelay options) (retryDelay cfg)"
  obtain e where e: "parseErrorResponse r = Some e" "err_class e = ServerError" "statusCode e = 503"
    using parseErrorResponse_503 [OF st body] by blast
  have nok: "\<not> ok r" using st by (simp add: ok_def HTTP_STATUS_defs)
  have re: "isRetryableError e" using e by (simp add: isRetryableError_def)
  have n401: "statusCode e \<noteq> UNAUTHORIZED" using e by (simp add: HTTP_STATUS_defs)
  note A = attempt_once_retryable [OF intime [rule_format] net [rule_format] nok e(1) re n401]
  have mx: "num_nullish (opt_retryAttempts options) (retryAttempts cfg) = 3"
    using ra by (simp add: num_nullish_def)
  obtain w1 where w1: "attempt_once E cfg url options 1 w = (Retry d, w1)"
    using A(1) [of 1 w] mx by (cases "attempt_once E cfg url options 1 w") (simp add: d_def)
  have t1: "trace w1 = trace w @ [Fetch url options]" using A(2) [of 1 w] w1 by simp
  define w1' where "w1' = sleep E d w1"
  have t1': "trace w1' = trace w @ [Fetch url options, Sleep d]"
    using t1 by (simp add: w1'_def sleep_def)
  obtain w2 where w2: "attempt_once E cfg url options 2 w1' = (Retry (d * 2), w2)"
    using A(1) [of 2 w1'] mx by (cases "attempt_once E cfg url options 2 w1'") (simp add: d_def)
  have t2: "trace w2 = trace w1' @ [Fetch url options]" using A(2) [of 2 w1'] w2 by simp
  define w2' where "w2' = sleep E (d * 2) w2"
  have t2': "trace w2' = trace w @ [Fetch url options, Sleep d, Fetch url options, Sleep (d * 2)]"
    using t2 t1' by (simp add: w2'_def sleep_def)
  obtain w3 where w3: "attempt_once E cfg url options 3 w2' = (Throw (Api e), w3)"
    using A(1) [of 3 w2'] mx by (cases "attempt_once E cfg url options 3 w2'") simp
  have t3: "trace w3 = trace w2' @ [Fetch url options]" using A(2) [of 3 w2'] w3 by simp
  have m3: "makeRequest E cfg url options 3 w2' = (Inl (Api e), w3)"
    using w3 by (subst makeRequest.simps) simp
  have m2: "makeRequest E cfg url options 2 w1' = (Inl (Api e), w3)"
    using w2 m3 by (subst makeRequest.simps) (simp add: w2'_def numeral_3_eq_3 numeral_2_eq_2)
  have m1: "makeRequest E cfg url options 1 w = (Inl (Api e), w3)"
    using w1 m2 by (subst makeRequest.simps) (simp add: w1'_def numeral_2_eq_2)
  show ?thesis
    using e m1 t3 t2' by (auto simp: d_def)
qed

text \<open>
  C1, as amended.  With \<open>retryAttempts = 3\<close>, against a server that answers every attempt in
  time with the same 503 response (its body not the JSON text \<open>null\<close>), \<open>makeRequest\<close> calls
  \<open>fetch\<close> exactly three times with the same url and options, waits \<open>retryDelay\<close> after the
  first failure and \<open>2 * retryDelay\<close> after the second, waits no third time, and throws the
  \<open>ServerError\<close> of status 503.
\<close>

theorem makeRequest_503_retryAttempts_3:
  assumes "opt_retryAttempts options = Some 3"
      and "\<forall>k. net E k url options = Responded r"
      and "status r = SERVICE_UNAVAILABLE"
      and "errorData_of r \<noteq> JNull"
      and "\<forall>k. latency E k \<le> num_or (opt_timeout options) (timeout cfg)"
  shows "\<exists>e. parseErrorResponse r = Some e \<and> err_class e = ServerError \<and> statusCode e = 503
           \<and> fst (makeRequest E cfg url options 1 w) = Inl (Api e)
           \<and> trace (snd (makeRequest E cfg url options 1 w)) =
               trace w @ [Fetch url options,
                          Sleep (num_or (opt_retryDelay options) (retryDelay cfg)),
                          Fetch url options,
                          Sleep (num_or (opt_retryDelay options) (retryDelay cfg) * 2),
                          Fetch url options]"
  using assms by (rule makeRequest_503_run)

text \<open>The theorem at the default configuration: the waits are 1000 ms and 2000 ms.\<close>

theorem makeRequest_503_retryAttempts_3_witness:
  "opt_retryAttempts (no_options \<lparr> opt_retryAttempts := Some 3 \<rparr>) = Some 3
   \<and> (\<forall>k. net (always (empty_response 503 ''Service Unavailable'')) k ''/x''
             (no_options \<lparr> opt_retryAttempts := Some 3 \<rparr>)
           = Responded (empty_response 503 ''Service Unavailable''))
   \<and> status (empty_response 503 ''Service Unavailable'') = SERVICE_UNAVAILABLE
   \<and> errorData_of (empty_response 503 ''Service Unavailable'') \<noteq> JNull
   \<and> (\<forall>k. latency (always (empty_response 503 ''Service Unavailable'')) k
           \<le> num_or (opt_timeout (no_options \<lparr> opt_retryAttempts := Some 3 \<rparr>))
                (timeout (defaultApiConfig False)))
   \<and> (\<exists>e. err_class e = ServerError \<and> statusCode e = 503
         \<and> fst (makeRequest (always (empty_response 503 ''Service Unavailable''))
                  (defaultApiConfig False) ''/x''
                  (no_options \<lparr> opt_retryAttempts := Some 3 \<rparr>) 1 fresh_world) = Inl (Api e)
         \<and> trace (snd (makeRequest (always (empty_response 503 ''Service Unavailable''))
                  (defaultApiConfig False) ''/x''
                  (no_options \<lparr> opt_retryAttempts := Some 3 \<rparr>) 1 fresh_world)) =
             [Fetch ''/x'' (no_options \<lparr> opt_retryAttempts := Some 3 \<rparr>), Sleep 1000,
              Fetch ''/x'' (no_options \<lparr> opt_retryAttempts := Some 3 \<rparr>), Sleep 2000,
              Fetch ''/x'' (no_options \<lparr> opt_retryAttempts := Some 3 \<rparr>)])"
proof -
  let ?r = "empty_response 503 ''Service Unavailable''"
  let ?o = "no_options \<lparr> opt_retryAttempts := Some 3 \<rparr>"
  have h1: "opt_retryAttempts ?o = Some 3" by simp
  have h2: "\<forall>k. net (always ?r) k ''/x'' ?o = Responded ?r" by (simp add: always_def)
  have h3: "status ?r = SERVICE_UNAVAILABLE" by (simp add: empty_response_def HTTP_STATUS_defs)
  have h4: "errorData_of ?r \<noteq> JNull" by (simp add: errorData_of_def empty_response_def)
  have h5: "\<forall>k. latency (always ?r) k \<le> num_or (opt_timeout ?o) (timeout (defaultApiConfig False))"
    by (simp add: always_def no_options_def num_or_def defaultApiConfig_def)
  have d: "num_or (opt_retryDelay ?o) (retryDelay (defaultApiConfig False)) = 1000"
    by (simp add: no_options_def num_or_def defaultApiConfig_def)
  have t: "trace fresh_world = []" by (simp add: fresh_world_def)
  show ?thesis
    using h1 h2 h3 h4 h5
      makeRequest_503_retryAttempts_3 [OF h1 h2 h3 h4 h5, of fresh_world]
    unfolding d t by auto
qed

text \<open>
  C1 as stated has three waits, \<open>d\<close>, \<open>2d\<close> and \<open>4d\<close>.  At the default configuration
  (\<open>d = 1000\<close>) the waits of the call are 1000 and 2000 only.
\<close>

theorem makeRequest_503_waits_counterexample:
  "filter is_Sleep
     (trace (snd (makeRequest (always (empty_response 503 ''Service Unavailable''))
                    (defaultApiConfig False) ''/x''
                    (no_options \<lparr> opt_retryAttempts := Some 3 \<rparr>) 1 fresh_world)))
     = [Sleep 1000, Sleep 2000]
   \<and> filter is_Sleep
     (trace (snd (makeRequest (always (empty_response 503 ''Service Unavailable''))
                    (defaultApiConfig False) ''/x''
                    (no_options \<lparr> opt_retryAttempts := Some 3 \<rparr>) 1 fresh_world)))
     \<noteq> [Sleep 1000, Sleep 2000, Sleep 4000]"
  by (simp add: attempt_once_def do_fetch_def always_def empty_response_def defaultApiConfig_def
     no_options_def fresh_world_def Let_def num_or_def num_nullish_def ok_def parseErrorResponse_def
     errorData_of_def HTTP_STATUS_defs new_ServerError_def mk_error_def isRetryableError_def
     sleep_def catch_clause_def unauthorized_handler_def js_or_def js_or_else_def)

subsection \<open>The effects of a call\<close>

lemma attempt_once_effects:
  "\<exists>evs. trace (snd (attempt_once E cfg url options attempt w)) = trace w @ evs
         \<and> (\<forall>e \<in> set evs. own_effect url options e)"
  by (auto simp: attempt_once_def Let_def do_fetch_def unauthorized_handler_def own_effect_def
      split: prod.splits fetch_outcome.splits net_outcome.splits option.splits)

lemma makeRequest_effects:
  "\<exists>evs. trace (snd (makeRequest E cfg url options attempt w)) = trace w @ evs
         \<and> (\<forall>e \<in> set evs. own_effect url options e)"
proof (induction E cfg url options attempt w rule: makeRequest.induct)
  case (1 E cfg url options attempt w)
  obtain x w' where a: "attempt_once E cfg url options attempt w = (x, w')"
    by (cases "attempt_once E cfg url options attempt w")
  obtain evs where evs: "trace w' = trace w @ evs" "\<forall>e \<in> set evs. own_effect url options e"
    using attempt_once_effects [of E cfg url options attempt w] a by auto
  show ?case
  proof (cases x)
    case (Return r)
    then show ?thesis using a evs by (subst makeRequest.simps) auto
  next
    case (Retry delay)
    obtain evs' where evs':
      "trace (snd (makeRequest E cfg url options (Suc attempt) (sleep E delay w')))
        = trace (sleep E delay w') @ evs'"
      "\<forall>e \<in> set evs'. own_effect url options e"
      using "1.IH" [OF a [symmetric] Retry] by auto
    have "trace (sleep E delay w') = trace w @ evs @ [Sleep delay]"
      using evs by (simp add: sleep_def)
    then have "trace (snd (makeRequest E cfg url options attempt w))
        = trace w @ (evs @ [Sleep delay] @ evs')"
      using a Retry evs' by (subst makeRequest.simps) simp
    moreover have "\<forall>e \<in> set (evs @ [Sleep delay] @ evs'). own_effect url options e"
      using evs evs' by (auto simp: own_effect_def)
    ultimately show ?thesis by blast
  next
    case (Throw ex)
    then show ?thesis using a evs by (subst makeRequest.simps) auto
  qed
qed

lemma own_effects_filter:
  assumes "\<forall>e \<in> set evs. own_effect url options e"
  shows "filter is_LsGet evs = []"
    and "filter is_Fetch evs = replicate (length (filter is_Fetch evs)) (Fetch url options)"
  using assms by (induction evs) (auto simp: own_effect_def)

lemma auth_interceptor_result:
  "auth_interceptor url options w =
     ((url, if \<not> skipAuth options \<and> (\<exists>t. localStorage w AUTH_TOKEN = Some t \<and> t \<noteq> [])
            then options \<lparr> headers := (headers options)
                   (''Authorization'' \<mapsto> ''Bearer '' @ the (localStorage w AUTH_TOKEN)) \<rparr>
            else options),
      w \<lparr> trace := trace w @ (if skipAuth options then [] else [LsGet AUTH_TOKEN]) \<rparr>)"
  by (auto simp: auth_interceptor_def Let_def split: option.splits)

lemma run_request_interceptors_default:
  "run_request_interceptors (requestInterceptors cfg) url options w
     = auth_interceptor url options w"
  by (cases "auth_interceptor url options w")
     (auto simp: requestInterceptors_def logging_interceptor_def)

lemma getCachedResponse_trace: "trace (snd (getCachedResponse key w)) = trace w"
  by (simp add: getCachedResponse_def split: option.splits)

lemma cacheResponse_trace: "trace (cacheResponse key d t w) = trace w"
  by (simp add: cacheResponse_def)

lemma request_trace:
  "\<exists>evs. trace (snd (request E cfg endpoint options w)) =
           trace w @ (if skipAuth options then [] else [LsGet AUTH_TOKEN]) @ evs
         \<and> (\<forall>e \<in> set evs. own_effect (fst (intercepted cfg endpoint options w))
                                     (snd (intercepted cfg endpoint options w)) e)"
proof -
  obtain url ro w1 where
    i: "auth_interceptor (full_url cfg endpoint) (with_content_type options) w = ((url, ro), w1)"
    by (cases "auth_interceptor (full_url cfg endpoint) (with_content_type options) w") auto
  have ic: "intercepted cfg endpoint options w = (url, ro)"
    by (simp add: intercepted_def run_request_interceptors_default i)
  have t1: "trace w1 = trace w @ (if skipAuth options then [] else [LsGet AUTH_TOKEN])"
    using i by (auto simp: auth_interceptor_result with_content_type_def)
  define key where "key = method_or_GET ro @ '':'' @ url"
  obtain cached w2 where
    c: "(if cacheable cfg ro then getCachedResponse key w1 else (JNull, w1)) = (cached, w2)"
    by (cases "if cacheable cfg ro then getCachedResponse key w1 else (JNull, w1)") auto
  have t2: "trace w2 = trace w1"
    using c getCachedResponse_trace [of key w1] by (auto split: if_splits)
  obtain evs where evs: "trace (snd (makeRequest E cfg url ro 1 w2)) = trace w2 @ evs"
      "\<forall>e \<in> set evs. own_effect url ro e"
    using makeRequest_effects [of E cfg url ro 1 w2] by auto
  have "trace (snd (request E cfg endpoint options w)) = trace w2
      \<or> trace (snd (request E cfg endpoint options w)) = trace w2 @ evs"
    using evs(1) c
    by (auto simp: request_def run_request_interceptors_default i Let_def key_def
        cacheResponse_trace split: prod.splits sum.splits)
  then show ?thesis
  proof
    assume "trace (snd (request E cfg endpoint options w)) = trace w2"
    then have "trace (snd (request E cfg endpoint options w)) =
           trace w @ (if skipAuth options then [] else [LsGet AUTH_TOKEN]) @ []"
      using t1 t2 by simp
    then show ?thesis by (metis empty_iff list.set(1))
  next
    assume "trace (snd (request E cfg endpoint options w)) = trace w2 @ evs"
    then have "trace (snd (request E cfg endpoint options w)) =
           trace w @ (if skipAuth options then [] else [LsGet AUTH_TOKEN]) @ evs"
      using t1 t2 by simp
    then show ?thesis using evs(2) ic by auto
  qed
qed

lemma intercepted_Authorization:
  "headers (snd (intercepted cfg endpoint options w)) ''Authorization'' =
     (case localStorage w AUTH_TOKEN of
        None \<Rightarrow> headers options ''Authorization''
      | Some token \<Rightarrow>
          if \<not> skipAuth options \<and> token \<noteq> [] then Some (''Bearer '' @ token)
          else headers options ''Authorization'')"
  by (auto simp: intercepted_def run_request_interceptors_default auth_interceptor_result
      with_content_type_def map_add_def split: option.splits)

lemmas eval_defs =
  attempt_once_def do_fetch_def always_def empty_response_def defaultApiConfig_def
  no_options_def fresh_world_def Let_def num_or_def num_nullish_def ok_def parseErrorResponse_def
  errorData_of_def HTTP_STATUS_defs new_error_defs isRetryableError_def
  sleep_def catch_clause_def unauthorized_handler_def js_or_def js_or_else_def
  request_def requestInterceptors_def auth_interceptor_def logging_interceptor_def
  full_url_def with_content_type_def method_or_GET_def cacheable_def getCachedResponse_def
  cacheResponse_def parseResponse_def response_json_def response_text_def response_blob_def
  ct_includes_def signed_in_def flaky_then_401_def AUTH_TOKEN_def USER_DATA_def API_BASE_URL_def
  intercepted_def get_def null_response_def json_response_def text_response_def later_def
  effects_since_def after_first_get_def second_get_def

text \<open>
  C10.  One call of \<open>request\<close> runs the request interceptors once, before anything else: the
  auth interceptor's read of the token is the first effect of the call (when \<open>skipAuth\<close> is
  off) and \<open>localStorage\<close> is not read again.  Every \<open>fetch\<close> of the call, the first attempt
  and each retry, is made with the one url and the one options object the interceptors
  produced, so its \<open>Authorization\<close> header is the token that was stored when the call
  began, whatever other code stores meanwhile.
\<close>

theorem request_interceptors_run_once:
  "\<exists>evs. trace (snd (request E cfg endpoint options w)) =
           trace w @ (if skipAuth options then [] else [LsGet AUTH_TOKEN]) @ evs
         \<and> filter is_LsGet evs = []
         \<and> filter is_Fetch evs =
             replicate (length (filter is_Fetch evs))
               (Fetch (fst (intercepted cfg endpoint options w))
                      (snd (intercepted cfg endpoint options w)))
         \<and> headers (snd (intercepted cfg endpoint options w)) ''Authorization'' =
             (case localStorage w AUTH_TOKEN of
                None \<Rightarrow> headers options ''Authorization''
              | Some token \<Rightarrow>
                  if \<not> skipAuth options \<and> token \<noteq> [] then Some (''Bearer '' @ token)
                  else headers options ''Authorization'')"
proof -
  obtain evs where evs: "trace (snd (request E cfg endpoint options w)) =
           trace w @ (if skipAuth options then [] else [LsGet AUTH_TOKEN]) @ evs"
     "\<forall>e \<in> set evs. own_effect (fst (intercepted cfg endpoint options w))
                                     (snd (intercepted cfg endpoint options w)) e"
    using request_trace [of E cfg endpoint options w] by blast
  show ?thesis
    using evs(1) own_effects_filter [OF evs(2)]
      intercepted_Authorization [of cfg endpoint options w]
    by blast
qed

text \<open>
  The theorem on a call whose first attempt is answered 503 and whose retry is answered
  401, while the stored token changes from \<open>t0\<close> to \<open>t1\<close> during the first attempt: one
  read of the token, two fetches, both with \<open>Bearer t0\<close>.
\<close>

theorem request_interceptors_run_once_witness:
  "trace (snd (request flaky_then_401 (defaultApiConfig False) ''/me'' no_options signed_in)) =
     [LsGet AUTH_TOKEN,
      Fetch (fst (intercepted (defaultApiConfig False) ''/me'' no_options signed_in))
            (snd (intercepted (defaultApiConfig False) ''/me'' no_options signed_in)),
      Sleep 1000,
      Fetch (fst (intercepted (defaultApiConfig False) ''/me'' no_options signed_in))
            (snd (intercepted (defaultApiConfig False) ''/me'' no_options signed_in)),
      LsRemove AUTH_TOKEN, LsRemove USER_DATA, Dispatch ''auth:logout'']
   \<and> headers (snd (intercepted (defaultApiConfig False) ''/me'' no_options signed_in))
       ''Authorization'' = Some ''Bearer t0''
   \<and> meanwhile flaky_then_401 0 (localStorage signed_in) AUTH_TOKEN = Some ''t1''"
proof -
  have t: "trace (snd (request flaky_then_401 (defaultApiConfig False) ''/me'' no_options signed_in)) =
     [LsGet AUTH_TOKEN,
      Fetch (fst (intercepted (defaultApiConfig False) ''/me'' no_options signed_in))
            (snd (intercepted (defaultApiConfig False) ''/me'' no_options signed_in)),
      Sleep 1000,
      Fetch (fst (intercepted (defaultApiConfig False) ''/me'' no_options signed_in))
            (snd (intercepted (defaultApiConfig False) ''/me'' no_options signed_in)),
      LsRemove AUTH_TOKEN, LsRemove USER_DATA, Dispatch ''auth:logout'']"
    by (simp add: eval_defs)
  have s: "localStorage signed_in AUTH_TOKEN = Some ''t0''" "\<not> skipAuth no_options"
    by (simp_all add: signed_in_def fresh_world_def no_options_def AUTH_TOKEN_def USER_DATA_def)
  have m: "meanwhile flaky_then_401 0 (localStorage signed_in) AUTH_TOKEN = Some ''t1''"
    by (simp add: flaky_then_401_def)
  from request_interceptors_run_once
    [of flaky_then_401 "defaultApiConfig False" "''/me''" no_options signed_in]
  have "headers (snd (intercepted (defaultApiConfig False) ''/me'' no_options signed_in))
       ''Authorization'' = Some ''Bearer t0''"
    using s by auto
  then show ?thesis using t m by blast
qed

subsection \<open>The logout on 401\<close>

lemma attempt_once_logout:
  "\<exists>evs. trace (snd (attempt_once E cfg url options attempt w)) = trace w @ evs
     \<and> count_list evs (Dispatch ''auth:logout'') =
         (case fst (attempt_once E cfg url options attempt w) of
            Throw (Api e) \<Rightarrow> if statusCode e = UNAUTHORIZED then 1 else 0
          | _ \<Rightarrow> 0)"
  by (auto simp: attempt_once_def Let_def do_fetch_def unauthorized_handler_def catch_clause_def
        new_error_defs HTTP_STATUS_defs
      split: prod.splits fetch_outcome.splits net_outcome.splits option.splits
      dest: parseErrorResponse_class)

text \<open>
  Whatever the server does, one \<open>makeRequest\<close> dispatches \<open>auth:logout\<close> once when it ends
  with an error of status 401, and not at all otherwise.
\<close>

lemma makeRequest_logout:
  "\<exists>evs. trace (snd (makeRequest E cfg url options attempt w)) = trace w @ evs
     \<and> count_list evs (Dispatch ''auth:logout'') =
         (case fst (makeRequest E cfg url options attempt w) of
            Inl (Api e) \<Rightarrow> if statusCode e = UNAUTHORIZED then 1 else 0
          | _ \<Rightarrow> 0)"
proof (induction E cfg url options attempt w rule: makeRequest.induct)
  case (1 E cfg url options attempt w)
  obtain x w' where a: "attempt_once E cfg url options attempt w = (x, w')"
    by (cases "attempt_once E cfg url options attempt w")
  obtain evs where evs: "trace w' = trace w @ evs"
    "count_list evs (Dispatch ''auth:logout'') =
       (case x of Throw (Api e) \<Rightarrow> if statusCode e = UNAUTHORIZED then 1 else 0 | _ \<Rightarrow> 0)"
    using attempt_once_logout [of E cfg url options attempt w] a by auto
  show ?case
  proof (cases x)
    case (Return r)
    then show ?thesis using a evs by (subst (1 2) makeRequest.simps) auto
  next
    case (Retry delay)
    obtain evs' where evs':
      "trace (snd (makeRequest E cfg url options (Suc attempt) (sleep E delay w')))
        = trace (sleep E delay w') @ evs'"
      "count_list evs' (Dispatch ''auth:logout'') =
         (case fst (makeRequest E cfg url options (Suc attempt) (sleep E delay w')) of
            Inl (Api e) \<Rightarrow> if statusCode e = UNAUTHORIZED then 1 else 0
          | _ \<Rightarrow> 0)"
      using "1.IH" [OF a [symmetric] Retry] by auto
    have s: "trace (sleep E delay w') = trace w @ evs @ [Sleep delay]"
      using evs by (simp add: sleep_def)
    have m: "makeRequest E cfg url options attempt w
        = makeRequest E cfg url options (Suc attempt) (sleep E delay w')"
      using a Retry by (subst makeRequest.simps) simp
    have "trace (snd (makeRequest E cfg url options attempt w))
        = trace w @ (evs @ [Sleep delay] @ evs')"
      using m evs' s by simp
    moreover have "count_list (evs @ [Sleep delay] @ evs') (Dispatch ''auth:logout'') =
         (case fst (makeRequest E cfg url options attempt w) of
            Inl (Api e) \<Rightarrow> if statusCode e = UNAUTHORIZED then 1 else 0
          | _ \<Rightarrow> 0)"
      using evs(2) evs'(2) Retry m by simp
    ultimately show ?thesis by blast
  next
    case (Throw ex)
    then show ?thesis using a evs by (subst (1 2) makeRequest.simps) (auto split: exn.splits)
  qed
qed

text \<open>
  A 401 response that arrives in time and whose body does not parse to \<open>null\<close> ends the
  call, on whichever attempt it comes: the credentials are removed, the logout is
  dispatched once, and the \<open>UnauthorizedError\<close> is thrown.
\<close>

lemma attempt_once_401:
  assumes "latency E (ticks w) \<le> num_or (opt_timeout options) (timeout cfg)"
      and "net E (ticks w) url options = Responded r"
      and "status r = UNAUTHORIZED"
      and "errorData_of r \<noteq> JNull"
  shows "\<exists>e w'. attempt_once E cfg url options attempt w = (Throw (Api e), w')
           \<and> err_class e = UnauthorizedError
           \<and> trace w' = trace w @ [Fetch url options, LsRemove AUTH_TOKEN, LsRemove USER_DATA,
                                    Dispatch ''auth:logout'']
           \<and> localStorage w' AUTH_TOKEN = None \<and> localStorage w' USER_DATA = None"
proof -
  obtain e where e: "parseErrorResponse r = Some e"
    using assms(4) parseErrorResponse_None [of r] by (cases "parseErrorResponse r") auto
  have c: "err_class e = UnauthorizedError" "statusCode e = UNAUTHORIZED"
    using parseErrorResponse_named(1) [OF e] parseErrorResponse_statusCode [OF e] assms(3)
    by (simp_all add: HTTP_STATUS_defs)
  have nr: "\<not> isRetryableError e" using c by (simp add: isRetryableError_def HTTP_STATUS_defs)
  have nok: "\<not> ok r" using assms(3) by (simp add: ok_def HTTP_STATUS_defs)
  show ?thesis
    using assms(1,2) e c nr nok
    by (auto simp: attempt_once_def Let_def do_fetch_def catch_clause_def unauthorized_handler_def
        AUTH_TOKEN_def USER_DATA_def split: prod.splits)
qed

text \<open>
  C7.  The claim holds for every 401 response but one whose body is the JSON text \<open>null\<close>.
  There \<open>parseErrorResponse\<close> reads \<open>errorData.message\<close> of \<open>null\<close>; the \<open>TypeError\<close> lands in
  the \<open>catch\<close> of \<open>makeRequest\<close>, which takes it for a network failure: the request is
  retried, a \<open>NetworkError\<close> is thrown, the error interceptors never run, the credentials
  stay and no logout is dispatched.
\<close>

theorem request_401_null_body_no_logout:
  "fst (request (always (null_response 401 ''Unauthorized'')) (defaultApiConfig False)
          ''/me'' no_options signed_in) = Inl (Api new_NetworkError)
   \<and> count_list
        (trace (snd (request (always (null_response 401 ''Unauthorized''))
                       (defaultApiConfig False) ''/me'' no_options signed_in)))
        (Dispatch ''auth:logout'') = 0
   \<and> length (filter is_Fetch
        (trace (snd (request (always (null_response 401 ''Unauthorized''))
                       (defaultApiConfig False) ''/me'' no_options signed_in)))) = 3
   \<and> localStorage (snd (request (always (null_response 401 ''Unauthorized''))
                       (defaultApiConfig False) ''/me'' no_options signed_in)) AUTH_TOKEN
       = Some ''t0''
   \<and> localStorage (snd (request (always (null_response 401 ''Unauthorized''))
                       (defaultApiConfig False) ''/me'' no_options signed_in)) USER_DATA
       = Some ''u0''"
  by (simp add: eval_defs)

subsection \<open>The cache\<close>

lemma getCachedResponse_fresh:
  assumes "cache w key = Some entry" "now w - timestamp entry \<le> ttl entry"
  shows "getCachedResponse key w = (data entry, w)"
  using assms by (simp add: getCachedResponse_def)

lemma getCachedResponse_expired:
  assumes "cache w key = Some entry" "now w - timestamp entry > ttl entry"
  shows "getCachedResponse key w = (JNull, w \<lparr> cache := (cache w)(key := None) \<rparr>)"
  using assms by (simp add: getCachedResponse_def)

lemma getCachedResponse_miss:
  assumes "cache w key = None"
  shows "getCachedResponse key w = (JNull, w)"
  using assms by (simp add: getCachedResponse_def)

text \<open>
  A cacheable request whose entry is fresh and whose payload is truthy is answered from
  the cache, without a \<open>fetch\<close>.
\<close>

lemma request_cache_hit:
  assumes "intercepted cfg endpoint options w = (url, ro)"
      and "cacheable cfg ro"
      and "cache w (method_or_GET ro @ '':'' @ url) = Some entry"
      and "now w - timestamp entry \<le> ttl entry"
      and "truthy (data entry)"
  shows "fst (request E cfg endpoint options w) = Inr (data entry)"
    and "filter is_Fetch (effects_since w (snd (request E cfg endpoint options w))) = []"
proof -
  obtain w1 where
    i: "auth_interceptor (full_url cfg endpoint) (with_content_type options) w = ((url, ro), w1)"
    using assms(1)
    by (cases "auth_interceptor (full_url cfg endpoint) (with_content_type options) w")
       (auto simp: intercepted_def run_request_interceptors_default)
  have w1: "cache w1 = cache w" "now w1 = now w"
      "trace w1 = trace w @ (if skipAuth options then [] else [LsGet AUTH_TOKEN])"
    using i by (auto simp: auth_interceptor_result with_content_type_def)
  have g: "getCachedResponse (method_or_GET ro @ '':'' @ url) w1 = (data entry, w1)"
    using assms(3,4) w1 by (simp add: getCachedResponse_def)
  have r: "request E cfg endpoint options w = (Inr (data entry), w1)"
    using assms(2,5) g by (simp add: request_def run_request_interceptors_default i Let_def)
  show "fst (request E cfg endpoint options w) = Inr (data entry)"
    using r by simp
  show "filter is_Fetch (effects_since w (snd (request E cfg endpoint options w))) = []"
    using r w1 by (simp add: effects_since_def)
qed

text \<open>
  A cacheable request whose entry has expired drops the entry and goes to the network.
\<close>

lemma makeRequest_fetches:
  "filter is_Fetch (effects_since w (snd (makeRequest E cfg url options attempt w))) \<noteq> []"
proof -
  obtain x w' where a: "attempt_once E cfg url options attempt w = (x, w')"
    by (cases "attempt_once E cfg url options attempt w")
  have f: "\<exists>evs. trace w' = trace w @ Fetch url options # evs"
    using a
    by (auto simp: attempt_once_def Let_def do_fetch_def unauthorized_handler_def
        split: prod.splits fetch_outcome.splits net_outcome.splits option.splits if_splits)
  then obtain evs where evs: "trace w' = trace w @ Fetch url options # evs" by blast
  show ?thesis
  proof (cases x)
    case (Retry delay)
    obtain evs' where "trace (snd (makeRequest E cfg url options (Suc attempt) (sleep E delay w')))
        = trace (sleep E delay w') @ evs'"
      using makeRequest_effects [of E cfg url options "Suc attempt" "sleep E delay w'"] by blast
    then have "trace (snd (makeRequest E cfg url options attempt w))
        = trace w @ Fetch url options # evs @ [Sleep delay] @ evs'"
      using a Retry evs by (subst makeRequest.simps) (simp add: sleep_def)
    then show ?thesis by (simp add: effects_since_def)
  qed (use a evs in \<open>subst makeRequest.simps, simp add: effects_since_def\<close>)+
qed

lemma request_cache_expired:
  assumes "intercepted cfg endpoint options w = (url, ro)"
      and "cacheable cfg ro"
      and "cache w (method_or_GET ro @ '':'' @ url) = Some entry"
      and "now w - timestamp entry > ttl entry"
  shows "filter is_Fetch (effects_since w (snd (request E cfg endpoint options w))) \<noteq> []"
proof -
  obtain w1 where
    i: "auth_interceptor (full_url cfg endpoint) (with_content_type options) w = ((url, ro), w1)"
    using assms(1)
    by (cases "auth_interceptor (full_url cfg endpoint) (with_content_type options) w")
       (auto simp: intercepted_def run_request_interceptors_default)
  have w1: "cache w1 = cache w" "now w1 = now w"
      "trace w1 = trace w @ (if skipAuth options then [] else [LsGet AUTH_TOKEN])"
    using i by (auto simp: auth_interceptor_result with_content_type_def)
  define w2 where "w2 = w1 \<lparr> cache := (cache w1)(method_or_GET ro @ '':'' @ url := None) \<rparr>"
  have g: "getCachedResponse (method_or_GET ro @ '':'' @ url) w1 = (JNull, w2)"
    using assms(3,4) w1 by (simp add: getCachedResponse_def w2_def)
  have t2: "trace w2 = trace w1" by (simp add: w2_def)
  obtain evs where evs: "trace (snd (makeRequest E cfg url ro 1 w2)) = trace w2 @ evs"
    using makeRequest_effects [of E cfg url ro 1 w2] by blast
  have ne: "filter is_Fetch evs \<noteq> []"
    using makeRequest_fetches [of w2 E cfg url ro 1] evs by (simp add: effects_since_def)
  have "trace (snd (request E cfg endpoint options w)) = trace w2 @ evs"
    using assms(2) g evs
    by (auto simp: request_def run_request_interceptors_default i Let_def cacheResponse_trace
        split: prod.splits sum.splits)
  then show ?thesis
    using ne t2 w1 by (simp add: effects_since_def)
qed

text \<open>
  The scenario of the specification with the payload \<open>hello\<close>: 500 ms after it was cached
  the second \<open>GET /x\<close> gets the cached payload without a \<open>fetch\<close>; 1500 ms after, it
  fetches again.
\<close>

lemma second_get_hello:
  "cache (after_first_get ''hello'') ''GET:http://localhost:8000/x''
     = Some \<lparr> data = JStr ''hello'', timestamp = 0, ttl = 1000 \<rparr>"
  "fst (second_get ''hello'' 500) = Inr (JStr ''hello'')"
  "filter is_Fetch (effects_since (later 500 (after_first_get ''hello''))
     (snd (second_get ''hello'' 500))) = []"
  "length (filter is_Fetch (effects_since (later 1500 (after_first_get ''hello''))
     (snd (second_get ''hello'' 1500)))) = 1"
  by (simp_all add: eval_defs)

text \<open>
  C5.  The claim has a fresh entry served whatever its payload.  \<open>request\<close> tests the value
  \<open>getCachedResponse\<close> returns for truthiness, and that value is \<open>null\<close> on a miss: a cached
  payload that is falsy (the empty text here; likewise \<open>null\<close>, \<open>0\<close>, \<open>false\<close>) is taken for a
  miss.  With \<open>cacheTTL = 1000\<close>, the second \<open>GET /x\<close> 500 ms after the empty text was cached
  finds the entry fresh and still goes to the network.
\<close>

theorem second_get_empty_payload_fetches:
  "cache (after_first_get []) ''GET:http://localhost:8000/x''
     = Some \<lparr> data = JStr [], timestamp = 0, ttl = 1000 \<rparr>
   \<and> now (later 500 (after_first_get [])) - 0 \<le> 1000
   \<and> length (filter is_Fetch (effects_since (later 500 (after_first_get []))
        (snd (second_get [] 500)))) = 1"
  by (simp add: eval_defs)

section \<open>Properties of the event stream manager\<close>

subsection \<open>What the parts of the manager leave alone\<close>

lemma setConnectionState_fields [simp]:
  "eventSource (setConnectionState st s) = eventSource s"
  "released (setConnectionState st s) = released s"
  "opened (setConnectionState st s) = opened s"
  "subscriptions (setConnectionState st s) = subscriptions s"
  "isManualClose (setConnectionState st s) = isManualClose s"
  "reconnectAttempts (setConnectionState st s) = reconnectAttempts s"
  "reconnectTimeout (setConnectionState st s) = reconnectTimeout s"
  "scheduled (setConnectionState st s) = scheduled s"
  "invoked (setConnectionState st s) = invoked s"
  "heartbeatOn (setConnectionState st s) = heartbeatOn s"
  "connectionState (setConnectionState st s) = st"
  by (simp_all add: setConnectionState_def)

lemma stopHeartbeat_fields [simp]:
  "eventSource (stopHeartbeat s) = eventSource s"
  "released (stopHeartbeat s) = released s"
  "opened (stopHeartbeat s) = opened s"
  "subscriptions (stopHeartbeat s) = subscriptions s"
  "isManualClose (stopHeartbeat s) = isManualClose s"
  "reconnectAttempts (stopHeartbeat s) = reconnectAttempts s"
  "reconnectTimeout (stopHeartbeat s) = reconnectTimeout s"
  "scheduled (stopHeartbeat s) = scheduled s"
  "invoked (stopHeartbeat s) = invoked s"
  "connectionState (stopHeartbeat s) = connectionState s"
  "heartbeatOn (stopHeartbeat s) = False"
  by (simp_all add: stopHeartbeat_def)

lemma scheduleReconnect_fields [simp]:
  "eventSource (scheduleReconnect s) = eventSource s"
  "released (scheduleReconnect s) = released s"
  "opened (scheduleReconnect s) = opened s"
  "subscriptions (scheduleReconnect s) = subscriptions s"
  "isManualClose (scheduleReconnect s) = isManualClose s"
  "invoked (scheduleReconnect s) = invoked s"
  "heartbeatOn (scheduleReconnect s) = heartbeatOn s"
  by (simp_all add: scheduleReconnect_def Let_def)

lemma connect_fields [simp]:
  "subscriptions (connect accepts s) = subscriptions s"
  "invoked (connect accepts s) = invoked s"
  by (auto simp: connect_def Let_def)

lemma disconnect_fields [simp]:
  "subscriptions (disconnect s) = subscriptions s"
  "opened (disconnect s) = opened s"
  "invoked (disconnect s) = invoked s"
  "scheduled (disconnect s) = scheduled s"
  "reconnectAttempts (disconnect s) = reconnectAttempts s"
  "eventSource (disconnect s) = None"
  "reconnectTimeout (disconnect s) = None"
  "isManualClose (disconnect s) = False"
  "heartbeatOn (disconnect s) = False"
  by (simp_all add: disconnect_def Let_def split: option.splits)

subsection \<open>One physical connection\<close>

lemma sources_inv_connect: "sources_inv s \<Longrightarrow> sources_inv (connect accepts s)"
  by (auto simp: sources_inv_def connect_def Let_def has_live_source_def current_def
      split: option.splits)

lemma sources_inv_disconnect: "sources_inv s \<Longrightarrow> sources_inv (disconnect s)"
  by (auto simp: sources_inv_def disconnect_def Let_def current_def split: option.splits)

lemma sources_inv_subscriptions [simp]:
  "sources_inv (s \<lparr> subscriptions := x \<rparr>) = sources_inv s"
  by (simp add: sources_inv_def current_def)

lemma sources_inv_step: "sources_inv s \<Longrightarrow> sources_inv (step accepts ev s)"
proof (cases ev)
  case (Subscribe r c)
  assume "sources_inv s"
  then show ?thesis
    using Subscribe
    by (simp add: subscribe_def Let_def reconnect_def sources_inv_connect sources_inv_disconnect)
next
  case (Unsubscribe r c)
  assume "sources_inv s"
  then show ?thesis
    using Unsubscribe
    by (simp add: unsubscribe_def Let_def reconnect_def sources_inv_connect sources_inv_disconnect)
next
  case Disconnect
  assume "sources_inv s"
  then show ?thesis using Disconnect by (simp add: sources_inv_disconnect)
next
  case Destroy
  assume "sources_inv s"
  then show ?thesis using Destroy by (simp add: destroy_def sources_inv_disconnect)
next
  case OnOpen
  assume "sources_inv s"
  then show ?thesis
    using OnOpen
    by (auto simp: sources_inv_def current_def on_open_def Let_def startHeartbeat_def
        split: option.splits)
next
  case (OnError fatal)
  assume "sources_inv s"
  then show ?thesis
    using OnError
    by (auto simp: sources_inv_def current_def on_error_def Let_def split: option.splits)
next
  case (Frame name parsed)
  assume "sources_inv s"
  then show ?thesis
    using Frame
    by (auto simp: sources_inv_def current_def on_frame_def Let_def updateHeartbeat_def
        notifySubscribers_def split: option.splits json.splits)
next
  case ReconnectTimer
  assume a: "sources_inv s"
  have "sources_inv (s \<lparr> reconnectTimeout := None \<rparr>)"
    using a by (simp add: sources_inv_def current_def)
  then show ?thesis
    using ReconnectTimer a
    by (auto simp: reconnect_def sources_inv_connect sources_inv_disconnect split: option.splits)
next
  case HeartbeatTick
  assume "sources_inv s"
  then show ?thesis
    using HeartbeatTick
    by (simp add: on_heartbeat_tick_def reconnect_def sources_inv_connect sources_inv_disconnect)
next
  case (Elapse ms)
  assume "sources_inv s"
  then show ?thesis using Elapse by (simp add: sources_inv_def current_def)
qed

lemma sources_inv_run: "sources_inv s \<Longrightarrow> sources_inv (run accepts evs s)"
  by (induction evs arbitrary: s) (simp_all add: sources_inv_step)

lemma sources_inv_new: "sources_inv (new_SSEManager t)"
  by (simp add: sources_inv_def new_SSEManager_def current_def)

lemma live_sources_le: "sources_inv s \<Longrightarrow> length (live_sources s) \<le> 1"
  by (auto simp: sources_inv_def live_sources_def split: option.splits)

lemma opened_connect:
  "opened (connect accepts s) = opened s
   \<or> opened (connect accepts s)
       = opened s @ [stream_url (map fst (subscriptions (connect accepts s)))]"
  by (auto simp: connect_def Let_def)

lemma opened_step:
  "opened (step accepts ev s) = opened s
   \<or> opened (step accepts ev s)
       = opened s @ [stream_url (map fst (subscriptions (step accepts ev s)))]"
proof (cases ev)
  case (Subscribe r c)
  then show ?thesis
    using opened_connect [of accepts "s \<lparr> subscriptions := add_callback r c (subscriptions s) \<rparr>"]
      opened_connect
        [of accepts "disconnect (s \<lparr> subscriptions := add_callback r c (subscriptions s) \<rparr>)"]
    by (auto simp: subscribe_def Let_def reconnect_def)
next
  case (Unsubscribe r c)
  then show ?thesis
    using opened_connect
        [of accepts "disconnect (s \<lparr> subscriptions := remove_callback r c (subscriptions s) \<rparr>)"]
    by (auto simp: unsubscribe_def Let_def reconnect_def)
next
  case ReconnectTimer
  then show ?thesis
    using opened_connect [of accepts "disconnect (s \<lparr> reconnectTimeout := None \<rparr>)"]
    by (auto simp: reconnect_def split: option.splits)
next
  case HeartbeatTick
  then show ?thesis
    using opened_connect [of accepts "disconnect s"]
    by (auto simp: on_heartbeat_tick_def reconnect_def)
next
  case (Frame name parsed)
  then show ?thesis
    by (auto simp: on_frame_def Let_def updateHeartbeat_def notifySubscribers_def
        split: option.splits json.splits)
qed (auto simp: destroy_def on_open_def on_error_def Let_def startHeartbeat_def
       split: option.splits)

subsection \<open>The subscription map\<close>

lemma map_of_add_callback:
  "map_of (add_callback r c subs) k =
     (if k = r
      then Some (case map_of subs r of
                   None \<Rightarrow> [c]
                 | Some cbs \<Rightarrow> if c \<in> set cbs then cbs else cbs @ [c])
      else map_of subs k)"
  by (induction subs) auto

lemma keys_add_callback:
  "map fst (add_callback r c subs) =
     (if r \<in> fst ` set subs then map fst subs else map fst subs @ [r])"
proof (induction subs)
  case (Cons a subs)
  then show ?case by (cases a) (auto simp: image_iff)
qed simp

lemma key_set_add_callback:
  "fst ` set (add_callback r c subs) = insert r (fst ` set subs)"
  using arg_cong [OF keys_add_callback [of r c subs], of set] by auto

lemma distinct_add_callback:
  "distinct (map fst subs) \<Longrightarrow> distinct (map fst (add_callback r c subs))"
  by (simp add: keys_add_callback)

lemma keys_remove_callback:
  "fst ` set (remove_callback r c subs) \<subseteq> fst ` set subs"
proof (induction subs)
  case (Cons a subs)
  then show ?case by (cases a) (auto split: if_splits)
qed simp

lemma removeAll_single: "set xs \<subseteq> {c} \<Longrightarrow> removeAll c xs = []"
  by (induction xs) auto

lemma distinct_remove_callback:
  "distinct (map fst subs) \<Longrightarrow> distinct (map fst (remove_callback r c subs))"
proof (induction subs)
  case (Cons a subs)
  then show ?case
    using keys_remove_callback [of r c subs] by (cases a) auto
qed simp

lemma map_of_remove_callback:
  assumes "distinct (map fst subs)"
  shows "map_of (remove_callback r c subs) k =
     (if k = r
      then (case map_of subs r of
              None \<Rightarrow> None
            | Some cbs \<Rightarrow> if removeAll c cbs = [] then None else Some (removeAll c cbs))
      else map_of subs k)"
  using assms
proof (induction subs)
  case (Cons a subs)
  obtain k' cbs where a: "a = (k', cbs)" by (cases a)
  have "k' \<notin> fst ` set subs" using Cons.prems a by simp
  then have "map_of subs k' = None" by (simp add: map_of_eq_None_iff)
  then show ?case using Cons a by auto
qed simp

lemma step_distinct_keys:
  "distinct (map fst (subscriptions s)) \<Longrightarrow> distinct (map fst (subscriptions (step accepts ev s)))"
  by (cases ev)
     (auto simp: subscribe_def unsubscribe_def destroy_def reconnect_def Let_def on_open_def
        on_error_def on_frame_def on_heartbeat_tick_def startHeartbeat_def updateHeartbeat_def
        notifySubscribers_def distinct_add_callback distinct_remove_callback
      split: option.splits json.splits)

lemma run_distinct_keys:
  "distinct (map fst (subscriptions s)) \<Longrightarrow> distinct (map fst (subscriptions (run accepts evs s)))"
  by (induction evs arbitrary: s) (simp_all add: step_distinct_keys)

text \<open>
  An identifier that was subscribed is a key of the map, and one whose last callback
  unsubscribed is not: with \<open>opened_step\<close>, the next connection url has the one and has not
  the other.
\<close>

lemma subscribe_key:
  "r \<in> set (map fst (subscriptions (step accepts (Subscribe r c) s)))"
  by (simp add: subscribe_def Let_def reconnect_def key_set_add_callback)

lemma unsubscribe_last_key:
  assumes "distinct (map fst (subscriptions s))" "set (callbacks_of s r) \<subseteq> {c}"
  shows "r \<notin> set (map fst (subscriptions (step accepts (Unsubscribe r c) s)))"
proof -
  have "map_of (remove_callback r c (subscriptions s)) r = None"
  proof (cases "map_of (subscriptions s) r")
    case None
    then show ?thesis using assms(1) by (simp add: map_of_remove_callback)
  next
    case (Some cbs)
    then have "removeAll c cbs = []"
      using assms(2) removeAll_single [of cbs c] by (simp add: callbacks_of_def)
    then show ?thesis using assms(1) Some by (simp add: map_of_remove_callback)
  qed
  then have "r \<notin> fst ` set (remove_callback r c (subscriptions s))"
    by (simp add: map_of_eq_None_iff)
  then show ?thesis
    by (auto simp: unsubscribe_def Let_def reconnect_def)
qed

lemmas sse_defs =
  subscribe_def unsubscribe_def reconnect_def connect_def disconnect_def destroy_def
  has_live_source_def setConnectionState_def stopHeartbeat_def startHeartbeat_def
  updateHeartbeat_def scheduleReconnect_def on_open_def on_error_def on_frame_def
  on_heartbeat_tick_def notifySubscribers_def callbacks_of_def new_SSEManager_def
  live_sources_def Let_def

lemma add_callback_new:
  "map_of subs r = None \<Longrightarrow> add_callback r c subs = subs @ [(r, [c])]"
proof (induction subs)
  case (Cons a subs)
  then show ?case by (cases a) (auto split: if_splits)
qed simp

lemma connect_opens:
  assumes "\<not> has_live_source s" "subscriptions s \<noteq> []"
      and "accepts (stream_url (map fst (subscriptions s)))"
  shows "eventSource (connect accepts s)
           = Some \<lparr> es_url = stream_url (map fst (subscriptions s)),
                    es_readyState = ES_CONNECTING \<rparr>"
    and "released (connect accepts s) = released s @ current s"
    and "opened (connect accepts s) = opened s @ [stream_url (map fst (subscriptions s))]"
    and "connectionState (connect accepts s) = CONNECTING"
  using assms by (simp_all add: connect_def Let_def current_def)

lemma released_disconnect:
  "released (disconnect s)
     = released s @ map (\<lambda>es. es \<lparr> es_readyState := ES_CLOSED \<rparr>) (current s)"
  by (simp add: disconnect_def Let_def current_def split: option.splits)

lemma has_live_source_disconnect [simp]: "\<not> has_live_source (disconnect s)"
  by (simp add: has_live_source_def)

lemma current_disconnect [simp]: "current (disconnect s) = []"
  by (simp add: current_def)

lemma not_live_current:
  "\<not> has_live_source s \<Longrightarrow>
     map (\<lambda>es. es \<lparr> es_readyState := ES_CLOSED \<rparr>) (current s) = current s"
  by (auto simp: has_live_source_def current_def split: option.splits)

text \<open>
  Subscribing to a resource that is no key yet leaves the manager with a new source for
  all keys, the new one last, and the source it had before closed and released.
\<close>

lemma subscribe_new:
  assumes "map_of (subscriptions s) r = None"
      and "accepts (stream_url (map fst (subscriptions s) @ [r]))"
  shows "eventSource (subscribe accepts r c s)
           = Some \<lparr> es_url = stream_url (map fst (subscriptions s) @ [r]),
                    es_readyState = ES_CONNECTING \<rparr>"
    and "subscriptions (subscribe accepts r c s) = subscriptions s @ [(r, [c])]"
    and "released (subscribe accepts r c s)
           = released s @ map (\<lambda>es. es \<lparr> es_readyState := ES_CLOSED \<rparr>) (current s)"
proof -
  define s1 where "s1 = s \<lparr> subscriptions := subscriptions s @ [(r, [c])] \<rparr>"
  have sub: "subscribe accepts r c s
      = (if has_live_source s1 then connect accepts (disconnect s1) else connect accepts s1)"
    using assms(1) by (simp add: subscribe_def Let_def reconnect_def add_callback_new s1_def)
  have f: "subscriptions s1 = subscriptions s @ [(r, [c])]" "released s1 = released s"
    "current s1 = current s"
    by (simp_all add: s1_def current_def)
  show "subscriptions (subscribe accepts r c s) = subscriptions s @ [(r, [c])]"
    using sub f by simp
  show "eventSource (subscribe accepts r c s)
           = Some \<lparr> es_url = stream_url (map fst (subscriptions s) @ [r]),
                    es_readyState = ES_CONNECTING \<rparr>"
    using sub f assms(2) connect_opens(1) [of s1 accepts]
      connect_opens(1) [of "disconnect s1" accepts]
    by (cases "has_live_source s1") simp_all
  show "released (subscribe accepts r c s)
           = released s @ map (\<lambda>es. es \<lparr> es_readyState := ES_CLOSED \<rparr>) (current s)"
    using sub f assms(2) connect_opens(2) [of s1 accepts]
      connect_opens(2) [of "disconnect s1" accepts]
      released_disconnect [of s1] not_live_current [of s1]
    by (cases "has_live_source s1") simp_all
qed

lemma three_subscriptions:
  assumes "distinct [r1, r2, r3]"
      and "accepts (stream_url [r1])"
      and "accepts (stream_url [r1, r2])"
      and "accepts (stream_url [r1, r2, r3])"
  shows "eventSource (run accepts [Subscribe r1 a, Subscribe r2 b, Subscribe r3 c]
                        (new_SSEManager t))
           = Some \<lparr> es_url = stream_url [r1, r2, r3], es_readyState = ES_CONNECTING \<rparr>"
    and "live_sources (run accepts [Subscribe r1 a, Subscribe r2 b, Subscribe r3 c]
                         (new_SSEManager t))
           = [\<lparr> es_url = stream_url [r1, r2, r3], es_readyState = ES_CONNECTING \<rparr>]"
proof -
  define s0 where "s0 = new_SSEManager t"
  define s1 where "s1 = subscribe accepts r1 a s0"
  define s2 where "s2 = subscribe accepts r2 b s1"
  define s3 where "s3 = subscribe accepts r3 c s2"
  have r: "run accepts [Subscribe r1 a, Subscribe r2 b, Subscribe r3 c] (new_SSEManager t) = s3"
    by (simp add: s0_def s1_def s2_def s3_def)
  have d: "r2 \<noteq> r1" "r3 \<noteq> r1" "r3 \<noteq> r2" using assms(1) by auto
  have 0: "subscriptions s0 = []" "released s0 = []" "current s0 = []"
    by (simp_all add: s0_def new_SSEManager_def current_def)
  have m0: "map_of (subscriptions s0) r1 = None" using 0 by simp
  have a0: "accepts (stream_url (map fst (subscriptions s0) @ [r1]))" using 0 assms(2) by simp
  note n1 = subscribe_new [of s0 r1 accepts a, OF m0 a0, folded s1_def]
  have 1: "subscriptions s1 = [(r1, [a])]" "released s1 = []"
    "current s1 = [\<lparr> es_url = stream_url [r1], es_readyState = ES_CONNECTING \<rparr>]"
    using n1 0 by (simp_all add: current_def)
  have m1: "map_of (subscriptions s1) r2 = None" using 1 d by simp
  have a1: "accepts (stream_url (map fst (subscriptions s1) @ [r2]))" using 1 assms(3) by simp
  note n2 = subscribe_new [of s1 r2 accepts b, OF m1 a1, folded s2_def]
  have 2: "subscriptions s2 = [(r1, [a]), (r2, [b])]"
    "released s2 = [\<lparr> es_url = stream_url [r1], es_readyState = ES_CLOSED \<rparr>]"
    "current s2 = [\<lparr> es_url = stream_url [r1, r2], es_readyState = ES_CONNECTING \<rparr>]"
    using n2 1 by (simp_all add: current_def)
  have m2: "map_of (subscriptions s2) r3 = None" using 2 d by simp
  have a2: "accepts (stream_url (map fst (subscriptions s2) @ [r3]))" using 2 assms(4) by simp
  note n3 = subscribe_new [of s2 r3 accepts c, OF m2 a2, folded s3_def]
  have 3: "released s3 = [\<lparr> es_url = stream_url [r1], es_readyState = ES_CLOSED \<rparr>,
                          \<lparr> es_url = stream_url [r1, r2], es_readyState = ES_CLOSED \<rparr>]"
    "eventSource s3 = Some \<lparr> es_url = stream_url [r1, r2, r3], es_readyState = ES_CONNECTING \<rparr>"
    using n3 2 by simp_all
  show "eventSource (run accepts [Subscribe r1 a, Subscribe r2 b, Subscribe r3 c]
                        (new_SSEManager t))
           = Some \<lparr> es_url = stream_url [r1, r2, r3], es_readyState = ES_CONNECTING \<rparr>"
    using r 3 by simp
  show "live_sources (run accepts [Subscribe r1 a, Subscribe r2 b, Subscribe r3 c]
                         (new_SSEManager t))
           = [\<lparr> es_url = stream_url [r1, r2, r3], es_readyState = ES_CONNECTING \<rparr>]"
    using r 3 by (simp add: live_sources_def)
qed

subsection \<open>The map and the registrations in force\<close>

lemma subscriptions_subscribe:
  "subscriptions (subscribe accepts r c s) = add_callback r c (subscriptions s)"
  by (simp add: subscribe_def Let_def reconnect_def)

lemma subscriptions_unsubscribe:
  "subscriptions (unsubscribe accepts r c s) = remove_callback r c (subscriptions s)"
  by (simp add: unsubscribe_def Let_def reconnect_def)

lemma subscriptions_destroy: "subscriptions (destroy s) = []"
  by (simp add: destroy_def)

lemma subscriptions_on_frame: "subscriptions (on_frame name parsed s) = subscriptions s"
  by (simp add: on_frame_def Let_def updateHeartbeat_def notifySubscribers_def
      split: option.splits json.splits)

lemma subscriptions_browser:
  "from_browser ev \<Longrightarrow> subscriptions (step accepts ev s) = subscriptions s"
proof (cases ev)
  case (Frame name parsed)
  then show ?thesis by (simp add: subscriptions_on_frame split: option.splits)
next
  case OnOpen
  then show ?thesis by (simp add: on_open_def Let_def startHeartbeat_def split: option.splits)
next
  case (OnError fatal)
  then show ?thesis by (simp add: on_error_def Let_def split: option.splits)
next
  case ReconnectTimer
  then show ?thesis by (simp add: reconnect_def split: option.splits)
next
  case HeartbeatTick
  then show ?thesis by (simp add: on_heartbeat_tick_def reconnect_def)
qed simp_all

lemma callbacks_of_subscribe:
  "callbacks_of (subscribe accepts r c s) k =
     (if k = r
      then (if c \<in> set (callbacks_of s r) then callbacks_of s r else callbacks_of s r @ [c])
      else callbacks_of s k)"
  by (simp add: subscriptions_subscribe callbacks_of_def map_of_add_callback
      split: option.splits)

lemma callbacks_of_unsubscribe:
  assumes "distinct (map fst (subscriptions s))"
  shows "callbacks_of (unsubscribe accepts r c s) k =
     (if k = r then removeAll c (callbacks_of s r) else callbacks_of s k)"
  using assms
  by (simp add: subscriptions_unsubscribe callbacks_of_def map_of_remove_callback
      split: option.splits)

lemma registered_step:
  assumes "distinct (map fst (subscriptions s))"
      and "\<forall>k. set (callbacks_of s k) = {cb. (k, cb) \<in> P}"
  shows "\<forall>k. set (callbacks_of (step accepts ev s) k) = {cb. (k, cb) \<in> subscribed_after ev P}"
proof (cases "from_browser ev \<or> ev = Disconnect")
  case True
  then have "subscriptions (step accepts ev s) = subscriptions s"
    using subscriptions_browser [of ev accepts s] by auto
  moreover have "subscribed_after ev P = P"
    using True by (cases ev) simp_all
  ultimately show ?thesis using assms(2) by (simp add: callbacks_of_def)
next
  case False
  then consider (Subscribe) r c where "ev = Subscribe r c"
    | (Unsubscribe) r c where "ev = Unsubscribe r c" | (Destroy) "ev = Destroy"
    by (cases ev) simp_all
  then show ?thesis
  proof cases
    case Subscribe
    show ?thesis
      unfolding Subscribe using assms(2) by (auto simp: callbacks_of_subscribe)
  next
    case Unsubscribe
    show ?thesis
      unfolding Unsubscribe using assms(2) by (auto simp: callbacks_of_unsubscribe [OF assms(1)])
  next
    case Destroy
    show ?thesis
      unfolding Destroy by (simp add: subscriptions_destroy callbacks_of_def)
  qed
qed

lemma registered_run:
  assumes "distinct (map fst (subscriptions s))"
      and "\<forall>k. set (callbacks_of s k) = {cb. (k, cb) \<in> P}"
  shows "\<forall>k. set (callbacks_of (run accepts evs s) k)
           = {cb. (k, cb) \<in> foldl (\<lambda>P ev. subscribed_after ev P) P evs}"
  using assms
proof (induction evs arbitrary: s P)
  case Nil
  then show ?case by simp
next
  case (Cons ev evs)
  note d = step_distinct_keys [OF Cons.prems(1), of accepts ev]
  note r = registered_step [OF Cons.prems, of accepts ev]
  show ?case using Cons.IH [OF d r] by simp
qed

lemma callbacks_of_reachable:
  "set (callbacks_of (run accepts evs (new_SSEManager t)) r)
     = {cb. (r, cb) \<in> currently_subscribed evs}"
proof -
  have d: "distinct (map fst (subscriptions (new_SSEManager t)))"
    by (simp add: new_SSEManager_def)
  have e: "\<forall>k. set (callbacks_of (new_SSEManager t) k) = {cb. (k, cb) \<in> {}}"
    by (simp add: new_SSEManager_def callbacks_of_def)
  show ?thesis
    using registered_run [OF d e, of accepts evs] by (simp add: currently_subscribed_def)
qed

lemma nonempty_add_callback:
  "\<forall>(k, cbs) \<in> set subs. cbs \<noteq> [] \<Longrightarrow> \<forall>(k, cbs) \<in> set (add_callback r c subs). cbs \<noteq> []"
  by (induction subs) (auto split: if_splits)

lemma nonempty_remove_callback:
  "\<forall>(k, cbs) \<in> set subs. cbs \<noteq> [] \<Longrightarrow> \<forall>(k, cbs) \<in> set (remove_callback r c subs). cbs \<noteq> []"
  by (induction subs) (auto split: if_splits)

lemma nonempty_step:
  assumes "\<forall>(k, cbs) \<in> set (subscriptions s). cbs \<noteq> []"
  shows "\<forall>(k, cbs) \<in> set (subscriptions (step accepts ev s)). cbs \<noteq> []"
proof (cases "from_browser ev \<or> ev = Disconnect")
  case True
  then have "subscriptions (step accepts ev s) = subscriptions s"
    using subscriptions_browser [of ev accepts s] by auto
  then show ?thesis using assms by simp
next
  case False
  then consider (Subscribe) r c where "ev = Subscribe r c"
    | (Unsubscribe) r c where "ev = Unsubscribe r c" | (Destroy) "ev = Destroy"
    by (cases ev) simp_all
  then show ?thesis
  proof cases
    case Subscribe
    show ?thesis
      unfolding Subscribe using nonempty_add_callback [OF assms]
      by (simp add: subscriptions_subscribe)
  next
    case Unsubscribe
    show ?thesis
      unfolding Unsubscribe using nonempty_remove_callback [OF assms]
      by (simp add: subscriptions_unsubscribe)
  next
    case Destroy
    show ?thesis
      unfolding Destroy by (simp add: subscriptions_destroy)
  qed
qed

lemma nonempty_run:
  assumes "\<forall>(k, cbs) \<in> set (subscriptions s). cbs \<noteq> []"
  shows "\<forall>(k, cbs) \<in> set (subscriptions (run accepts evs s)). cbs \<noteq> []"
  using assms
proof (induction evs arbitrary: s)
  case Nil
  then show ?case by simp
next
  case (Cons ev evs)
  show ?case using Cons.IH [OF nonempty_step [OF Cons.prems, of accepts ev]] by simp
qed

lemma key_iff_callbacks:
  assumes "\<forall>(k, cbs) \<in> set (subscriptions s). cbs \<noteq> []"
  shows "k \<in> set (map fst (subscriptions s)) \<longleftrightarrow> set (callbacks_of s k) \<noteq> {}"
proof (cases "map_of (subscriptions s) k")
  case None
  then have "k \<notin> fst ` set (subscriptions s)" by (simp add: map_of_eq_None_iff)
  then show ?thesis using None by (simp add: callbacks_of_def)
next
  case (Some cbs)
  then have "(k, cbs) \<in> set (subscriptions s)" by (rule map_of_SomeD)
  then have "cbs \<noteq> []" "k \<in> fst ` set (subscriptions s)" using assms by force+
  then show ?thesis using Some by (simp add: callbacks_of_def)
qed

lemma keys_reachable:
  "set (map fst (subscriptions (run accepts evs (new_SSEManager t))))
     = fst ` currently_subscribed evs"
proof -
  have n: "\<forall>(k, cbs) \<in> set (subscriptions (run accepts evs (new_SSEManager t))). cbs \<noteq> []"
    by (rule nonempty_run) (simp add: new_SSEManager_def)
  show ?thesis
  proof (rule set_eqI)
    fix k
    have "k \<in> set (map fst (subscriptions (run accepts evs (new_SSEManager t))))
        \<longleftrightarrow> {cb. (k, cb) \<in> currently_subscribed evs} \<noteq> {}"
      using key_iff_callbacks [OF n, of k] callbacks_of_reachable [of accepts evs t k] by simp
    also have "\<dots> \<longleftrightarrow> k \<in> fst ` currently_subscribed evs" by force
    finally show "k \<in> set (map fst (subscriptions (run accepts evs (new_SSEManager t))))
        \<longleftrightarrow> k \<in> fst ` currently_subscribed evs" .
  qed
qed

lemma keys_distinct_reachable:
  "distinct (map fst (subscriptions (run accepts evs (new_SSEManager t))))"
  by (rule run_distinct_keys) (simp add: new_SSEManager_def)

lemma removeAll_empty_iff: "removeAll c xs = [] \<longleftrightarrow> set xs \<subseteq> {c}"
  by (induction xs) auto

text \<open>An unsubscribe leaves every other key, and its own key while another callback is left.\<close>

lemma unsubscribe_keeps_key:
  assumes "distinct (map fst (subscriptions s))"
      and "k \<noteq> r \<or> \<not> set (callbacks_of s r) \<subseteq> {c}"
  shows "k \<in> set (map fst (subscriptions (step accepts (Unsubscribe r c) s)))
           \<longleftrightarrow> k \<in> set (map fst (subscriptions s))"
proof -
  have m: "map_of (remove_callback r c (subscriptions s)) k = None
      \<longleftrightarrow> map_of (subscriptions s) k = None"
  proof (cases "k = r")
    case False
    then show ?thesis using assms(1) by (simp add: map_of_remove_callback)
  next
    case True
    then have n: "\<not> set (callbacks_of s r) \<subseteq> {c}" using assms(2) by simp
    then obtain cbs where c: "map_of (subscriptions s) r = Some cbs"
      by (cases "map_of (subscriptions s) r") (simp_all add: callbacks_of_def)
    then have "removeAll c cbs \<noteq> []"
      using n by (simp add: callbacks_of_def removeAll_empty_iff)
    then show ?thesis using assms(1) True c by (simp add: map_of_remove_callback)
  qed
  have a: "(k \<in> fst ` set X) = (map_of X k \<noteq> None)" for X :: "(string \<times> callback list) list"
    by (simp add: map_of_eq_None_iff)
  have "k \<in> fst ` set (remove_callback r c (subscriptions s))
      \<longleftrightarrow> k \<in> fst ` set (subscriptions s)"
    unfolding a using m by simp
  then show ?thesis by (simp add: subscriptions_unsubscribe)
qed

lemma run_append: "run accepts (xs @ ys) s = run accepts ys (run accepts xs s)"
  by (induction xs arbitrary: s) simp_all

text \<open>What one more event opens, if anything, is a connection for the identifiers in force then.\<close>

lemma opened_reachable:
  "opened (run accepts (evs @ [ev]) (new_SSEManager t)) = opened (run accepts evs (new_SSEManager t))
   \<or> (\<exists>ks. distinct ks \<and> set ks = fst ` currently_subscribed (evs @ [ev])
          \<and> opened (run accepts (evs @ [ev]) (new_SSEManager t))
              = opened (run accepts evs (new_SSEManager t)) @ [stream_url ks])"
proof -
  define S where "S = run accepts evs (new_SSEManager t)"
  define S' where "S' = run accepts (evs @ [ev]) (new_SSEManager t)"
  have r: "S' = step accepts ev S" by (simp add: S'_def S_def run_append)
  have d: "distinct (map fst (subscriptions S'))"
    unfolding S'_def by (rule keys_distinct_reachable)
  have k: "set (map fst (subscriptions S')) = fst ` currently_subscribed (evs @ [ev])"
    unfolding S'_def by (rule keys_reachable)
  have "opened S' = opened S \<or> opened S' = opened S @ [stream_url (map fst (subscriptions S'))]"
    unfolding r by (rule opened_step)
  then show ?thesis
  proof
    assume "opened S' = opened S"
    then show ?thesis by (simp add: S_def S'_def)
  next
    assume o: "opened S' = opened S @ [stream_url (map fst (subscriptions S'))]"
    have "distinct (map fst (subscriptions S'))
        \<and> set (map fst (subscriptions S')) = fst ` currently_subscribed (evs @ [ev])
        \<and> opened S' = opened S @ [stream_url (map fst (subscriptions S'))]"
      using d k o by (intro conjI)
    then have "\<exists>ks. distinct ks \<and> set ks = fst ` currently_subscribed (evs @ [ev])
          \<and> opened S' = opened S @ [stream_url ks]"
      by (rule exI)
    then show ?thesis unfolding S_def S'_def by (rule disjI2)
  qed
qed

text \<open>
  Subscribe to \<open>session:1\<close> and \<open>session:2\<close>, then unsubscribe from \<open>session:1\<close>: the third
  connection is for \<open>session:2\<close> alone.
\<close>

lemma one_unsubscribed:
  "currently_subscribed [Subscribe ''session:1'' 1, Subscribe ''session:2'' 2,
      Unsubscribe ''session:1'' 1] = {(''session:2'', 2)}"
  "map fst (subscriptions (run any_url [Subscribe ''session:1'' 1, Subscribe ''session:2'' 2,
      Unsubscribe ''session:1'' 1] (new_SSEManager 0))) = [''session:2'']"
  "opened (run any_url [Subscribe ''session:1'' 1, Subscribe ''session:2'' 2,
      Unsubscribe ''session:1'' 1] (new_SSEManager 0))
     = [stream_url [''session:1''], stream_url [''session:1'', ''session:2''],
        stream_url [''session:2'']]"
  "live_sources (run any_url [Subscribe ''session:1'' 1, Subscribe ''session:2'' 2,
      Unsubscribe ''session:1'' 1] (new_SSEManager 0))
     = [\<lparr> es_url = stream_url [''session:2''], es_readyState = ES_CONNECTING \<rparr>]"
  by (simp_all add: currently_subscribed_def sse_defs any_url_def insert_Diff_if)

text \<open>
  C2.  In every state the manager can reach from its construction, at most one source is
  not closed, and the released sources with the current one are all the sources ever
  made.  The keys of its map are then, each once, exactly the identifiers that have a
  registration in force: subscribed to and not unsubscribed from since.  Whatever happens
  to a manager opens at most one connection, and its url is \<open>/stream?resources=\<close> with the
  comma-joined keys of the map as they are then: the identifiers that have a registration
  in force after what happened, each once.  A resource that is subscribed is a key;
  one whose only callback unsubscribes is a key no more, while every other key stays, and
  so does the key itself when another callback is left under it.  Three subscriptions to
  different resources, in a row, leave exactly one source that is not closed, with the
  three identifiers in its url.
\<close>

theorem single_connection:
  "length (live_sources (run accepts evs (new_SSEManager t))) \<le> 1
   \<and> map es_url (released (run accepts evs (new_SSEManager t))
                  @ current (run accepts evs (new_SSEManager t)))
       = opened (run accepts evs (new_SSEManager t))
   \<and> distinct (map fst (subscriptions (run accepts evs (new_SSEManager t))))
   \<and> set (map fst (subscriptions (run accepts evs (new_SSEManager t))))
       = fst ` currently_subscribed evs
   \<and> (opened (step accepts ev s) = opened s
      \<or> opened (step accepts ev s)
          = opened s @ [stream_url (map fst (subscriptions (step accepts ev s)))])
   \<and> r \<in> set (map fst (subscriptions (step accepts (Subscribe r cb) s)))
   \<and> (distinct (map fst (subscriptions s)) \<and> set (callbacks_of s r) \<subseteq> {cb}
        \<longrightarrow> r \<notin> set (map fst (subscriptions (step accepts (Unsubscribe r cb) s))))
   \<and> (distinct (map fst (subscriptions s)) \<and> (k \<noteq> r \<or> \<not> set (callbacks_of s r) \<subseteq> {cb})
        \<longrightarrow> (k \<in> set (map fst (subscriptions (step accepts (Unsubscribe r cb) s)))
              \<longleftrightarrow> k \<in> set (map fst (subscriptions s))))
   \<and> (distinct [r1, r2, r3] \<and> accepts (stream_url [r1]) \<and> accepts (stream_url [r1, r2])
        \<and> accepts (stream_url [r1, r2, r3])
        \<longrightarrow> live_sources (run accepts [Subscribe r1 a, Subscribe r2 b, Subscribe r3 c]
                             (new_SSEManager t))
              = [\<lparr> es_url = stream_url [r1, r2, r3], es_readyState = ES_CONNECTING \<rparr>]
            \<and> eventSource (run accepts [Subscribe r1 a, Subscribe r2 b, Subscribe r3 c]
                             (new_SSEManager t))
              = Some \<lparr> es_url = stream_url [r1, r2, r3], es_readyState = ES_CONNECTING \<rparr>)
   \<and> (opened (run accepts (evs @ [ev]) (new_SSEManager t))
        = opened (run accepts evs (new_SSEManager t))
      \<or> (\<exists>ks. distinct ks \<and> set ks = fst ` currently_subscribed (evs @ [ev])
             \<and> opened (run accepts (evs @ [ev]) (new_SSEManager t))
                 = opened (run accepts evs (new_SSEManager t)) @ [stream_url ks]))"
proof -
  have i: "sources_inv (run accepts evs (new_SSEManager t))"
    by (rule sources_inv_run [OF sources_inv_new])
  have 1: "length (live_sources (run accepts evs (new_SSEManager t))) \<le> 1"
    by (rule live_sources_le [OF i])
  have 2: "map es_url (released (run accepts evs (new_SSEManager t))
                  @ current (run accepts evs (new_SSEManager t)))
       = opened (run accepts evs (new_SSEManager t))"
    using i by (simp add: sources_inv_def)
  have 3: "opened (step accepts ev s) = opened s
      \<or> opened (step accepts ev s)
          = opened s @ [stream_url (map fst (subscriptions (step accepts ev s)))]"
    by (rule opened_step)
  have 4: "r \<in> set (map fst (subscriptions (step accepts (Subscribe r cb) s)))"
    by (rule subscribe_key)
  have 5: "distinct (map fst (subscriptions s)) \<and> set (callbacks_of s r) \<subseteq> {cb}
        \<longrightarrow> r \<notin> set (map fst (subscriptions (step accepts (Unsubscribe r cb) s)))"
    using unsubscribe_last_key [of s r cb accepts] by (intro impI) (elim conjE)
  have 6: "distinct [r1, r2, r3] \<and> accepts (stream_url [r1]) \<and> accepts (stream_url [r1, r2])
        \<and> accepts (stream_url [r1, r2, r3])
        \<longrightarrow> live_sources (run accepts [Subscribe r1 a, Subscribe r2 b, Subscribe r3 c]
                             (new_SSEManager t))
              = [\<lparr> es_url = stream_url [r1, r2, r3], es_readyState = ES_CONNECTING \<rparr>]
            \<and> eventSource (run accepts [Subscribe r1 a, Subscribe r2 b, Subscribe r3 c]
                             (new_SSEManager t))
              = Some \<lparr> es_url = stream_url [r1, r2, r3], es_readyState = ES_CONNECTING \<rparr>"
  proof (intro impI, elim conjE, intro conjI)
    assume h: "distinct [r1, r2, r3]" "accepts (stream_url [r1])" "accepts (stream_url [r1, r2])"
      "accepts (stream_url [r1, r2, r3])"
    show "live_sources (run accepts [Subscribe r1 a, Subscribe r2 b, Subscribe r3 c]
                             (new_SSEManager t))
              = [\<lparr> es_url = stream_url [r1, r2, r3], es_readyState = ES_CONNECTING \<rparr>]"
      by (rule three_subscriptions(2) [OF h])
    show "eventSource (run accepts [Subscribe r1 a, Subscribe r2 b, Subscribe r3 c]
                             (new_SSEManager t))
              = Some \<lparr> es_url = stream_url [r1, r2, r3], es_readyState = ES_CONNECTING \<rparr>"
      by (rule three_subscriptions(1) [OF h])
  qed
  have 7: "distinct (map fst (subscriptions (run accepts evs (new_SSEManager t))))"
    by (rule keys_distinct_reachable)
  have 8: "set (map fst (subscriptions (run accepts evs (new_SSEManager t))))
       = fst ` currently_subscribed evs"
    by (rule keys_reachable)
  have 9: "distinct (map fst (subscriptions s)) \<and> (k \<noteq> r \<or> \<not> set (callbacks_of s r) \<subseteq> {cb})
        \<longrightarrow> (k \<in> set (map fst (subscriptions (step accepts (Unsubscribe r cb) s)))
              \<longleftrightarrow> k \<in> set (map fst (subscriptions s)))"
    using unsubscribe_keeps_key [of s k r cb accepts] by (intro impI) (elim conjE)
  have 10: "opened (run accepts (evs @ [ev]) (new_SSEManager t))
        = opened (run accepts evs (new_SSEManager t))
      \<or> (\<exists>ks. distinct ks \<and> set ks = fst ` currently_subscribed (evs @ [ev])
             \<and> opened (run accepts (evs @ [ev]) (new_SSEManager t))
                 = opened (run accepts evs (new_SSEManager t)) @ [stream_url ks])"
    by (rule opened_reachable)
  show ?thesis
    by (intro conjI 1 2 7 8 3 4 5 9 6 10)
qed

text \<open>
  The theorem on \<open>session:1\<close>, \<open>session:2\<close> and \<open>post:3\<close>.  The run of the first conjuncts
  subscribes to \<open>session:1\<close> and \<open>session:2\<close> and unsubscribes from \<open>session:1\<close>: three
  connections are opened, the last for \<open>session:2\<close> alone, and it is the only one that is
  not closed.  On \<open>two_subscribers\<close>, the unsubscribe of callback 1 removes the key
  \<open>session:1\<close> and keeps \<open>session:2\<close>.
\<close>

theorem single_connection_witness:
  "distinct [''session:1'', ''session:2'', ''post:3'']
   \<and> any_url (stream_url [''session:1''])
   \<and> any_url (stream_url [''session:1'', ''session:2''])
   \<and> any_url (stream_url [''session:1'', ''session:2'', ''post:3''])
   \<and> live_sources (run any_url [Subscribe ''session:1'' 1, Subscribe ''session:2'' 2,
                                 Subscribe ''post:3'' 3] (new_SSEManager 0))
       = [\<lparr> es_url = stream_url [''session:1'', ''session:2'', ''post:3''],
            es_readyState = ES_CONNECTING \<rparr>]
   \<and> stream_url [''session:1'', ''session:2'', ''post:3'']
       = ''http://localhost:8000/stream?resources=session%3A1%2Csession%3A2%2Cpost%3A3''
   \<and> distinct (map fst (subscriptions two_subscribers))
   \<and> set (callbacks_of two_subscribers ''session:1'') \<subseteq> {1}
   \<and> ''session:1'' \<notin> set (map fst (subscriptions
         (step any_url (Unsubscribe ''session:1'' 1) two_subscribers)))
   \<and> ''session:2'' \<noteq> ''session:1''
   \<and> ''session:2'' \<in> set (map fst (subscriptions
         (step any_url (Unsubscribe ''session:1'' 1) two_subscribers)))
   \<and> length (live_sources (run any_url
        [Subscribe ''session:1'' 1, Subscribe ''session:2'' 2, Unsubscribe ''session:1'' 1]
        (new_SSEManager 0))) \<le> 1
   \<and> set (map fst (subscriptions (run any_url
        [Subscribe ''session:1'' 1, Subscribe ''session:2'' 2, Unsubscribe ''session:1'' 1]
        (new_SSEManager 0)))) = {''session:2''}
   \<and> opened (run any_url
        [Subscribe ''session:1'' 1, Subscribe ''session:2'' 2, Unsubscribe ''session:1'' 1]
        (new_SSEManager 0))
       = [stream_url [''session:1''], stream_url [''session:1'', ''session:2''],
          stream_url [''session:2'']]
   \<and> live_sources (run any_url
        [Subscribe ''session:1'' 1, Subscribe ''session:2'' 2, Unsubscribe ''session:1'' 1]
        (new_SSEManager 0))
       = [\<lparr> es_url = stream_url [''session:2''], es_readyState = ES_CONNECTING \<rparr>]"
proof -
  have d: "distinct [''session:1'', ''session:2'', ''post:3'']" by simp
  have u1: "any_url (stream_url [''session:1''])" by (simp add: any_url_def)
  have u2: "any_url (stream_url [''session:1'', ''session:2''])" by (simp add: any_url_def)
  have u3: "any_url (stream_url [''session:1'', ''session:2'', ''post:3''])"
    by (simp add: any_url_def)
  have e: "stream_url [''session:1'', ''session:2'', ''post:3'']
      = ''http://localhost:8000/stream?resources=session%3A1%2Csession%3A2%2Cpost%3A3''"
    by code_simp
  have k1: "distinct (map fst (subscriptions two_subscribers))"
    by (simp add: two_subscribers_def sse_defs any_url_def)
  have k2: "set (callbacks_of two_subscribers ''session:1'') \<subseteq> {1}"
    by (simp add: two_subscribers_def sse_defs any_url_def)
  have k3: "''session:2'' \<noteq> ''session:1''" by simp
  have k4: "''session:2'' \<in> set (map fst (subscriptions two_subscribers))"
    by (simp add: two_subscribers_def sse_defs any_url_def)
  note T = single_connection
    [where accepts = any_url and t = 0 and s = two_subscribers and r = "''session:1''"
       and cb = 1 and k = "''session:2''" and ev = Disconnect
       and evs = "[Subscribe ''session:1'' 1, Subscribe ''session:2'' 2,
                   Unsubscribe ''session:1'' 1]"
       and ?r1.0 = "''session:1''" and ?r2.0 = "''session:2''" and ?r3.0 = "''post:3''"
       and a = 1 and b = 2 and c = 3]
  note R1 = T [THEN conjunct2]
  note R2 = R1 [THEN conjunct2]
  note R3 = R2 [THEN conjunct2]
  note R4 = R3 [THEN conjunct2]
  note R5 = R4 [THEN conjunct2]
  note R6 = R5 [THEN conjunct2]
  note R7 = R6 [THEN conjunct2]
  note R8 = R7 [THEN conjunct2]
  have l: "length (live_sources (run any_url
        [Subscribe ''session:1'' 1, Subscribe ''session:2'' 2, Unsubscribe ''session:1'' 1]
        (new_SSEManager 0))) \<le> 1"
    by (rule T [THEN conjunct1])
  have ks: "set (map fst (subscriptions (run any_url
        [Subscribe ''session:1'' 1, Subscribe ''session:2'' 2, Unsubscribe ''session:1'' 1]
        (new_SSEManager 0)))) = {''session:2''}"
    using R3 [THEN conjunct1] one_unsubscribed(1) by simp
  have n: "''session:1'' \<notin> set (map fst (subscriptions
         (step any_url (Unsubscribe ''session:1'' 1) two_subscribers)))"
    by (rule R6 [THEN conjunct1, THEN mp, OF conjI [OF k1 k2]])
  have m: "''session:2'' \<in> set (map fst (subscriptions
         (step any_url (Unsubscribe ''session:1'' 1) two_subscribers)))"
    using R7 [THEN conjunct1, THEN mp, OF conjI [OF k1 disjI1 [OF k3]]] k4 by (rule iffD2)
  have t: "live_sources (run any_url [Subscribe ''session:1'' 1, Subscribe ''session:2'' 2,
                                 Subscribe ''post:3'' 3] (new_SSEManager 0))
       = [\<lparr> es_url = stream_url [''session:1'', ''session:2'', ''post:3''],
            es_readyState = ES_CONNECTING \<rparr>]"
    by (rule R8 [THEN conjunct1, THEN mp, OF conjI [OF d conjI [OF u1 conjI [OF u2 u3]]],
                 THEN conjunct1])
  show ?thesis
    by (intro conjI d u1 u2 u3 t e k1 k2 n k3 m l ks one_unsubscribed(3) one_unsubscribed(4))
qed

subsection \<open>Routing of frames\<close>

lemma resource_id_of_props:
  "resource_id_of payload = Some r \<longleftrightarrow>
     (\<exists>prop. props payload = Some prop \<and> prop ''resource_id'' = Some (JStr r))"
  by (auto simp: resource_id_of_def split: option.splits json.splits)

lemma connected_not_listened: "''connected'' \<notin> set listened"
  by (simp add: listened_def)

lemma frame_invokes:
  assumes "eventSource s = Some es" "es_readyState es = ES_OPEN" "name \<in> set listened"
      and "resource_id_of payload = Some r"
  shows "invoked (step accepts (Frame name (Some payload)) s)
           = invoked s @ map (\<lambda>callback. (callback, payload, name)) (callbacks_of s r)"
proof -
  have n: "name \<noteq> ''connected''" using assms(3) connected_not_listened by auto
  obtain g where p: "props payload = Some g" "g ''resource_id'' = Some (JStr r)"
    using assms(4) resource_id_of_props by auto
  show ?thesis
    using assms(1-3) n p
    by (simp add: on_frame_def Let_def notifySubscribers_def updateHeartbeat_def callbacks_of_def)
qed

text \<open>Whatever happens, only callbacks registered under the payload's identifier are invoked.\<close>

lemma on_frame_invoked:
  "invoked (on_frame name parsed s) = invoked s @
     (case parsed of
        None \<Rightarrow> []
      | Some payload \<Rightarrow>
          if name \<in> set listened then
            (case resource_id_of payload of
               None \<Rightarrow> []
             | Some r \<Rightarrow> map (\<lambda>callback. (callback, payload, name)) (callbacks_of s r))
          else [])"
  using connected_not_listened
  by (auto simp: on_frame_def Let_def updateHeartbeat_def resource_id_of_def
        notifySubscribers_def callbacks_of_def split: option.splits json.splits)

lemma on_frame_new:
  "\<exists>new. invoked (on_frame name parsed s) = invoked s @ new
     \<and> (\<forall>(c, p, n) \<in> set new. \<exists>r. resource_id_of p = Some r \<and> c \<in> set (callbacks_of s r))"
proof -
  consider (hit) payload r where "parsed = Some payload" "name \<in> set listened"
      "resource_id_of payload = Some r"
    | (miss) "\<not> (\<exists>payload r. parsed = Some payload \<and> name \<in> set listened
        \<and> resource_id_of payload = Some r)"
    by blast
  then show ?thesis
  proof cases
    case hit
    have "invoked (on_frame name parsed s)
        = invoked s @ map (\<lambda>callback. (callback, payload, name)) (callbacks_of s r)"
      using hit by (simp add: on_frame_invoked)
    moreover have
      "\<forall>(c, p, n) \<in> set (map (\<lambda>callback. (callback, payload, name)) (callbacks_of s r)).
        \<exists>r. resource_id_of p = Some r \<and> c \<in> set (callbacks_of s r)"
      using hit(3) by auto
    ultimately show ?thesis by blast
  next
    case miss
    then have "invoked (on_frame name parsed s) = invoked s @ []"
      by (auto simp: on_frame_invoked split: option.splits)
    then show ?thesis by (metis empty_iff list.set(1))
  qed
qed

lemma step_invoked:
  "\<exists>new. invoked (step accepts ev s) = invoked s @ new
     \<and> (\<forall>(c, p, n) \<in> set new. \<exists>r. resource_id_of p = Some r \<and> c \<in> set (callbacks_of s r))"
proof (cases ev)
  case (Frame name parsed)
  have "step accepts ev s = s \<or> step accepts ev s = on_frame name parsed s"
    using Frame by (auto split: option.splits)
  then show ?thesis
  proof
    assume "step accepts ev s = s"
    then have "invoked (step accepts ev s) = invoked s @ []" by simp
    then show ?thesis by (metis empty_iff list.set(1))
  next
    assume "step accepts ev s = on_frame name parsed s"
    then show ?thesis using on_frame_new [of name parsed s] by simp
  qed
qed (auto simp: subscribe_def unsubscribe_def destroy_def reconnect_def Let_def on_open_def
       on_error_def on_heartbeat_tick_def startHeartbeat_def split: option.splits)

lemma step_keeps_unregistered:
  assumes "distinct (map fst (subscriptions s))" "cb \<notin> set (callbacks_of s r)"
      and "ev \<noteq> Subscribe r cb"
  shows "cb \<notin> set (callbacks_of (step accepts ev s) r)"
proof (cases ev)
  case (Subscribe r' c')
  then show ?thesis
    using assms(2,3)
    by (auto simp: subscribe_def Let_def reconnect_def callbacks_of_def map_of_add_callback
        split: option.splits if_splits)
next
  case (Unsubscribe r' c')
  then show ?thesis
    using assms(1,2)
    by (auto simp: unsubscribe_def Let_def reconnect_def callbacks_of_def map_of_remove_callback
        split: option.splits if_splits)
next
  case (Frame name parsed)
  then show ?thesis
    using assms(2)
    by (auto simp: on_frame_def Let_def updateHeartbeat_def notifySubscribers_def callbacks_of_def
        split: option.splits json.splits)
qed (use assms(2) in \<open>auto simp: destroy_def reconnect_def Let_def on_open_def on_error_def
       on_heartbeat_tick_def startHeartbeat_def callbacks_of_def split: option.splits\<close>)

lemma run_never_invokes_unregistered:
  assumes "distinct (map fst (subscriptions s))" "cb \<notin> set (callbacks_of s r)"
      and "Subscribe r cb \<notin> set evs"
  shows "\<exists>new. invoked (run accepts evs s) = invoked s @ new
           \<and> (\<forall>(c, p, n) \<in> set new. resource_id_of p = Some r \<longrightarrow> c \<noteq> cb)"
  using assms
proof (induction evs arbitrary: s)
  case Nil
  then show ?case by simp
next
  case (Cons ev evs)
  obtain new1 where n1: "invoked (step accepts ev s) = invoked s @ new1"
    "\<forall>(c, p, n) \<in> set new1. \<exists>r. resource_id_of p = Some r \<and> c \<in> set (callbacks_of s r)"
    using step_invoked [of accepts ev s] by blast
  have ne: "ev \<noteq> Subscribe r cb" using Cons.prems(3) by auto
  have d: "distinct (map fst (subscriptions (step accepts ev s)))"
    by (rule step_distinct_keys [OF Cons.prems(1)])
  have u: "cb \<notin> set (callbacks_of (step accepts ev s) r)"
    by (rule step_keeps_unregistered [OF Cons.prems(1,2) ne])
  obtain new2 where n2: "invoked (run accepts evs (step accepts ev s))
      = invoked (step accepts ev s) @ new2"
    "\<forall>(c, p, n) \<in> set new2. resource_id_of p = Some r \<longrightarrow> c \<noteq> cb"
    using Cons.IH [OF d u] Cons.prems(3) by auto
  have "invoked (run accepts (ev # evs) s) = invoked s @ (new1 @ new2)"
    using n1(1) n2(1) by simp
  moreover have "\<forall>(c, p, n) \<in> set (new1 @ new2). resource_id_of p = Some r \<longrightarrow> c \<noteq> cb"
    using n1(2) n2(2) Cons.prems(2) by fastforce
  ultimately show ?case by blast
qed

lemma unsubscribe_unregisters:
  assumes "distinct (map fst (subscriptions s))"
  shows "cb \<notin> set (callbacks_of (step accepts (Unsubscribe r cb) s) r)"
  using assms
  by (auto simp: unsubscribe_def Let_def reconnect_def callbacks_of_def map_of_remove_callback
      split: option.splits if_splits)

lemma unsubscribed_never_invoked:
  assumes "distinct (map fst (subscriptions s))" "Subscribe r cb \<notin> set evs"
  shows "\<forall>(c, p, n) \<in> set (invoked_since (step accepts (Unsubscribe r cb) s)
                              (run accepts evs (step accepts (Unsubscribe r cb) s))).
           resource_id_of p = Some r \<longrightarrow> c \<noteq> cb"
proof -
  obtain new where "invoked (run accepts evs (step accepts (Unsubscribe r cb) s))
      = invoked (step accepts (Unsubscribe r cb) s) @ new"
    "\<forall>(c, p, n) \<in> set new. resource_id_of p = Some r \<longrightarrow> c \<noteq> cb"
    using run_never_invokes_unregistered
      [OF step_distinct_keys [OF assms(1)] unsubscribe_unregisters [OF assms(1)] assms(2)]
    by blast
  then show ?thesis by (simp add: invoked_since_def)
qed

lemma callbacks_distinct_step:
  assumes "\<forall>(k, cbs) \<in> set (subscriptions s). distinct cbs"
  shows "\<forall>(k, cbs) \<in> set (subscriptions (step accepts ev s)). distinct cbs"
proof -
  have a: "\<And>r c subs. \<forall>(k, cbs) \<in> set subs. distinct cbs
      \<Longrightarrow> \<forall>(k, cbs) \<in> set (add_callback r c subs). distinct cbs"
  proof -
    fix r c and subs :: "(string \<times> callback list) list"
    show "\<forall>(k, cbs) \<in> set subs. distinct cbs
      \<Longrightarrow> \<forall>(k, cbs) \<in> set (add_callback r c subs). distinct cbs"
      by (induction subs) (auto split: if_splits)
  qed
  have b: "\<And>r c subs. \<forall>(k, cbs) \<in> set subs. distinct cbs
      \<Longrightarrow> \<forall>(k, cbs) \<in> set (remove_callback r c subs). distinct cbs"
  proof -
    fix r c and subs :: "(string \<times> callback list) list"
    show "\<forall>(k, cbs) \<in> set subs. distinct cbs
      \<Longrightarrow> \<forall>(k, cbs) \<in> set (remove_callback r c subs). distinct cbs"
      by (induction subs) (auto split: if_splits simp: distinct_removeAll)
  qed
  show ?thesis
  proof (cases ev)
    case (Subscribe r c)
    then show ?thesis using a [OF assms, of r c] by (simp add: subscribe_def Let_def reconnect_def)
  next
    case (Unsubscribe r c)
    then show ?thesis using b [OF assms, of r c] by (simp add: unsubscribe_def Let_def reconnect_def)
  next
    case (Frame name parsed)
    then show ?thesis
      using assms
      by (auto simp: on_frame_def Let_def updateHeartbeat_def notifySubscribers_def
          split: option.splits json.splits)
  qed (use assms in \<open>auto simp: destroy_def reconnect_def Let_def on_open_def on_error_def
         on_heartbeat_tick_def startHeartbeat_def split: option.splits\<close>)
qed

lemma callbacks_distinct_run:
  assumes "\<forall>(k, cbs) \<in> set (subscriptions s). distinct cbs"
  shows "\<forall>(k, cbs) \<in> set (subscriptions (run accepts evs s)). distinct cbs"
  using assms
proof (induction evs arbitrary: s)
  case Nil
  then show ?case by simp
next
  case (Cons ev evs)
  have "\<forall>(k, cbs) \<in> set (subscriptions (step accepts ev s)). distinct cbs"
    by (rule callbacks_distinct_step [OF Cons.prems])
  then show ?case using Cons.IH [of "step accepts ev s"] by simp
qed

lemma callbacks_of_distinct:
  "distinct (callbacks_of (run accepts evs (new_SSEManager t)) r)"
proof -
  have "\<forall>(k, cbs) \<in> set (subscriptions (run accepts evs (new_SSEManager t))). distinct cbs"
    by (rule callbacks_distinct_run) (simp add: new_SSEManager_def)
  then show ?thesis
    by (auto simp: callbacks_of_def split: option.splits dest!: map_of_SomeD)
qed

lemma scenario:
  assumes "name \<in> set listened"
  shows "invoked (run any_url
             [Subscribe ''session:1'' A, Subscribe ''session:2'' B, OnOpen,
              Frame name (Some (payload_for ''session:1'' d))] (new_SSEManager t))
           = [(A, payload_for ''session:1'' d, name)]"
    and "invoked (run any_url
             [Subscribe ''session:1'' A, Subscribe ''session:2'' B, OnOpen,
              Frame name (Some (payload_for ''session:1'' d)),
              Unsubscribe ''session:1'' A, OnOpen,
              Frame name (Some (payload_for ''session:1'' d))] (new_SSEManager t))
           = [(A, payload_for ''session:1'' d, name)]"
proof -
  have n: "name \<noteq> ''connected''" using assms connected_not_listened by auto
  show "invoked (run any_url
             [Subscribe ''session:1'' A, Subscribe ''session:2'' B, OnOpen,
              Frame name (Some (payload_for ''session:1'' d))] (new_SSEManager t))
           = [(A, payload_for ''session:1'' d, name)]"
    using assms n by (simp add: sse_defs any_url_def payload_for_def)
  show "invoked (run any_url
             [Subscribe ''session:1'' A, Subscribe ''session:2'' B, OnOpen,
              Frame name (Some (payload_for ''session:1'' d)),
              Unsubscribe ''session:1'' A, OnOpen,
              Frame name (Some (payload_for ''session:1'' d))] (new_SSEManager t))
           = [(A, payload_for ''session:1'' d, name)]"
    using assms n by (simp add: sse_defs any_url_def payload_for_def)
qed

lemma unlistened_frame:
  assumes "name \<notin> set listened"
  shows "invoked (step accepts (Frame name parsed) s) = invoked s"
proof -
  have "invoked (on_frame name parsed s) = invoked s"
    using assms by (simp add: on_frame_invoked split: option.splits)
  then show ?thesis by (simp split: option.splits)
qed

lemma agent_status_not_listened: "''agent_status'' \<notin> set listened"
  by (simp add: listened_def)

lemma callbacks_of_step_subscribe:
  "callbacks_of (step accepts (Subscribe r c) s) k =
     (if k = r
      then (if c \<in> set (callbacks_of s r) then callbacks_of s r else callbacks_of s r @ [c])
      else callbacks_of s k)"
  using callbacks_of_subscribe [of accepts r c s k] by simp

lemma callbacks_of_step_unsubscribe:
  assumes "distinct (map fst (subscriptions s))"
  shows "callbacks_of (step accepts (Unsubscribe r c) s) k =
     (if k = r then removeAll c (callbacks_of s r) else callbacks_of s k)"
  using callbacks_of_unsubscribe [OF assms, of accepts r c k] by simp

text \<open>
  C3 as stated fails: the manager listens to sixteen named events and to
  unnamed messages, and a frame under any other name reaches no handler.  On
  \<open>two_subscribers\<close>, where callback 1 is registered under \<open>session:1\<close> and the connection
  is open, a frame for \<open>session:1\<close> under \<open>ping\<close> invokes nothing, and neither does one
  under \<open>agent_status\<close>.
\<close>

theorem unlistened_frame_counterexample:
  "eventSource two_subscribers
     = Some \<lparr> es_url = stream_url [''session:1'', ''session:2''], es_readyState = ES_OPEN \<rparr>
   \<and> callbacks_of two_subscribers ''session:1'' = [1]
   \<and> resource_id_of (payload_for ''session:1'' JNull) = Some ''session:1''
   \<and> invoked two_subscribers = []
   \<and> ping_frame = Frame ''ping'' (Some (payload_for ''session:1'' JNull))
   \<and> invoked (step any_url ping_frame two_subscribers) = []
   \<and> agent_status_frame = Frame ''agent_status'' (Some (payload_for ''session:1'' JNull))
   \<and> invoked (step any_url agent_status_frame two_subscribers) = []"
proof -
  have e: "eventSource two_subscribers
     = Some \<lparr> es_url = stream_url [''session:1'', ''session:2''], es_readyState = ES_OPEN \<rparr>"
    by (simp add: two_subscribers_def sse_defs any_url_def)
  have c: "callbacks_of two_subscribers ''session:1'' = [1]" "invoked two_subscribers = []"
    by (simp_all add: two_subscribers_def sse_defs any_url_def)
  have p: "resource_id_of (payload_for ''session:1'' JNull) = Some ''session:1''"
    by (simp add: resource_id_of_def payload_for_def)
  have f: "invoked (step any_url agent_status_frame two_subscribers) = []"
    using e c(2) by (simp add: agent_status_frame_def on_frame_def listened_def)
  have g: "invoked (step any_url ping_frame two_subscribers) = []"
    using e c(2) by (simp add: ping_frame_def on_frame_def listened_def)
  show ?thesis
    by (intro conjI e c p ping_frame_def g agent_status_frame_def f)
qed

text \<open>
  C3, as amended.  A frame on the open connection, with an event name the manager listens to
  and a payload whose \<open>resource_id\<close> is \<open>r\<close>, invokes the callbacks registered under \<open>r\<close>,
  in the order of their registration, and no other callback; a frame under a name the
  manager does not listen to invokes none.  In every state the manager can reach from its
  construction, the callbacks under \<open>r\<close> are, each once, exactly those that have a
  registration under \<open>r\<close> in force: subscribed to \<open>r\<close> and not unsubscribed from it since.
  A subscribe adds its callback under its identifier, behind those that are there, and
  changes no other registration; an unsubscribe removes its callback from under its
  identifier and changes no other registration.  Once the unsubscribe function of a
  callback for \<open>r\<close> has run, no frame for \<open>r\<close> invokes that callback, whatever happens
  next, as long as it is not subscribed to \<open>r\<close> again.  With \<open>A\<close> on \<open>session:1\<close> and \<open>B\<close> on
  \<open>session:2\<close>, a frame for \<open>session:1\<close> invokes \<open>A\<close> only; after \<open>A\<close> has unsubscribed, the
  same frame invokes nothing.
\<close>

theorem frames_reach_their_subscribers:
  "(eventSource s = Some es \<and> es_readyState es = ES_OPEN \<and> name \<in> set listened
      \<and> resource_id_of payload = Some r
      \<longrightarrow> invoked (step accepts (Frame name (Some payload)) s)
            = invoked s @ map (\<lambda>callback. (callback, payload, name)) (callbacks_of s r))
   \<and> (name' \<notin> set listened \<longrightarrow> invoked (step accepts (Frame name' parsed) s) = invoked s)
   \<and> distinct (callbacks_of (run accepts evs0 (new_SSEManager t)) r)
   \<and> set (callbacks_of (run accepts evs0 (new_SSEManager t)) r)
       = {c. (r, c) \<in> currently_subscribed evs0}
   \<and> callbacks_of (step accepts (Subscribe r cb) s) k =
       (if k = r
        then (if cb \<in> set (callbacks_of s r) then callbacks_of s r else callbacks_of s r @ [cb])
        else callbacks_of s k)
   \<and> (distinct (map fst (subscriptions s))
      \<longrightarrow> callbacks_of (step accepts (Unsubscribe r cb) s) k =
            (if k = r then removeAll cb (callbacks_of s r) else callbacks_of s k))
   \<and> (distinct (map fst (subscriptions s)) \<and> Subscribe r cb \<notin> set evs
      \<longrightarrow> (\<forall>(c, p, n) \<in> set (invoked_since (step accepts (Unsubscribe r cb) s)
                                   (run accepts evs (step accepts (Unsubscribe r cb) s))).
             resource_id_of p = Some r \<longrightarrow> c \<noteq> cb))
   \<and> (name \<in> set listened
      \<longrightarrow> invoked (run any_url
             [Subscribe ''session:1'' A, Subscribe ''session:2'' B, OnOpen,
              Frame name (Some (payload_for ''session:1'' d))] (new_SSEManager t))
           = [(A, payload_for ''session:1'' d, name)]
        \<and> invoked (run any_url
             [Subscribe ''session:1'' A, Subscribe ''session:2'' B, OnOpen,
              Frame name (Some (payload_for ''session:1'' d)),
              Unsubscribe ''session:1'' A, OnOpen,
              Frame name (Some (payload_for ''session:1'' d))] (new_SSEManager t))
           = [(A, payload_for ''session:1'' d, name)])"
proof -
  have 1: "eventSource s = Some es \<and> es_readyState es = ES_OPEN \<and> name \<in> set listened
      \<and> resource_id_of payload = Some r
      \<longrightarrow> invoked (step accepts (Frame name (Some payload)) s)
            = invoked s @ map (\<lambda>callback. (callback, payload, name)) (callbacks_of s r)"
    using frame_invokes [of s es name payload r accepts] by (intro impI) (elim conjE)
  have 2: "distinct (callbacks_of (run accepts evs0 (new_SSEManager t)) r)"
    by (rule callbacks_of_distinct)
  have 3: "distinct (map fst (subscriptions s)) \<and> Subscribe r cb \<notin> set evs
      \<longrightarrow> (\<forall>(c, p, n) \<in> set (invoked_since (step accepts (Unsubscribe r cb) s)
                                   (run accepts evs (step accepts (Unsubscribe r cb) s))).
             resource_id_of p = Some r \<longrightarrow> c \<noteq> cb)"
    using unsubscribed_never_invoked [of s r cb evs accepts] by (intro impI) (elim conjE)
  have 4: "name \<in> set listened
      \<longrightarrow> invoked (run any_url
             [Subscribe ''session:1'' A, Subscribe ''session:2'' B, OnOpen,
              Frame name (Some (payload_for ''session:1'' d))] (new_SSEManager t))
           = [(A, payload_for ''session:1'' d, name)]
        \<and> invoked (run any_url
             [Subscribe ''session:1'' A, Subscribe ''session:2'' B, OnOpen,
              Frame name (Some (payload_for ''session:1'' d)),
              Unsubscribe ''session:1'' A, OnOpen,
              Frame name (Some (payload_for ''session:1'' d))] (new_SSEManager t))
           = [(A, payload_for ''session:1'' d, name)]"
    using scenario [of name A B d t] by (intro impI conjI)
  have 5: "name' \<notin> set listened \<longrightarrow> invoked (step accepts (Frame name' parsed) s) = invoked s"
    using unlistened_frame [of name' accepts parsed s] by (intro impI)
  have 6: "set (callbacks_of (run accepts evs0 (new_SSEManager t)) r)
       = {c. (r, c) \<in> currently_subscribed evs0}"
    by (rule callbacks_of_reachable)
  have 7: "callbacks_of (step accepts (Subscribe r cb) s) k =
       (if k = r
        then (if cb \<in> set (callbacks_of s r) then callbacks_of s r else callbacks_of s r @ [cb])
        else callbacks_of s k)"
    by (rule callbacks_of_step_subscribe)
  have 8: "distinct (map fst (subscriptions s))
      \<longrightarrow> callbacks_of (step accepts (Unsubscribe r cb) s) k =
            (if k = r then removeAll cb (callbacks_of s r) else callbacks_of s k)"
    using callbacks_of_step_unsubscribe [of s accepts r cb k] by (intro impI)
  show ?thesis
    by (intro conjI 1 5 2 6 7 8 3 4)
qed

text \<open>
  The theorem on \<open>shared_resource\<close>, where callbacks 1 and 3 are registered under
  \<open>session:1\<close> and callback 2 under \<open>session:2\<close>: a \<open>status_update\<close> frame for \<open>session:1\<close>
  invokes 1 and then 3, the same frame under \<open>agent_status\<close> invokes nothing, and after
  callback 1 has unsubscribed and the manager has reconnected, the frame invokes 3 alone.
\<close>

theorem frames_reach_their_subscribers_witness:
  "eventSource shared_resource
     = Some \<lparr> es_url = stream_url [''session:1'', ''session:2''], es_readyState = ES_OPEN \<rparr>
   \<and> ''status_update'' \<in> set listened
   \<and> resource_id_of (payload_for ''session:1'' JNull) = Some ''session:1''
   \<and> invoked (step any_url status_frame shared_resource)
       = [(1, payload_for ''session:1'' JNull, ''status_update''),
          (3, payload_for ''session:1'' JNull, ''status_update'')]
   \<and> ''agent_status'' \<notin> set listened
   \<and> invoked (step any_url agent_status_frame shared_resource) = []
   \<and> set (callbacks_of shared_resource ''session:1'') = {1, 3}
   \<and> distinct (map fst (subscriptions shared_resource))
   \<and> callbacks_of (step any_url (Unsubscribe ''session:1'' 1) shared_resource) ''session:1'' = [3]
   \<and> callbacks_of (step any_url (Unsubscribe ''session:1'' 1) shared_resource) ''session:2'' = [2]
   \<and> Subscribe ''session:1'' 1 \<notin> set [OnOpen, status_frame]
   \<and> invoked_since (step any_url (Unsubscribe ''session:1'' 1) shared_resource)
        (run any_url [OnOpen, status_frame]
           (step any_url (Unsubscribe ''session:1'' 1) shared_resource))
       = [(3, payload_for ''session:1'' JNull, ''status_update'')]
   \<and> invoked (run any_url
        [Subscribe ''session:1'' 1, Subscribe ''session:2'' 2, OnOpen,
         Frame ''status_update'' (Some (payload_for ''session:1'' JNull)),
         Unsubscribe ''session:1'' 1, OnOpen,
         Frame ''status_update'' (Some (payload_for ''session:1'' JNull))] (new_SSEManager 0))
       = [(1, payload_for ''session:1'' JNull, ''status_update'')]"
proof -
  have e: "eventSource shared_resource
     = Some \<lparr> es_url = stream_url [''session:1'', ''session:2''], es_readyState = ES_OPEN \<rparr>"
    by (simp add: shared_resource_def shared_history_def sse_defs any_url_def)
  have o: "es_readyState \<lparr> es_url = stream_url [''session:1'', ''session:2''],
                           es_readyState = ES_OPEN \<rparr> = ES_OPEN"
    by simp
  have l: "''status_update'' \<in> set listened" by (simp add: listened_def)
  have l': "''agent_status'' \<notin> set listened" by (simp add: listened_def)
  have p: "resource_id_of (payload_for ''session:1'' JNull) = Some ''session:1''"
    by (simp add: resource_id_of_def payload_for_def)
  have c: "callbacks_of shared_resource ''session:1'' = [1, 3]"
    "callbacks_of shared_resource ''session:2'' = [2]" "invoked shared_resource = []"
    by (simp_all add: shared_resource_def shared_history_def sse_defs any_url_def)
  have k: "distinct (map fst (subscriptions shared_resource))"
    by (simp add: shared_resource_def shared_history_def sse_defs any_url_def)
  have n: "Subscribe ''session:1'' 1 \<notin> set [OnOpen, status_frame]"
    by (simp add: status_frame_def)
  have h: "currently_subscribed shared_history
      = {(''session:1'', 1), (''session:2'', 2), (''session:1'', 3)}"
    by (auto simp: currently_subscribed_def shared_history_def)
  have u: "invoked_since (step any_url (Unsubscribe ''session:1'' 1) shared_resource)
        (run any_url [OnOpen, status_frame]
           (step any_url (Unsubscribe ''session:1'' 1) shared_resource))
       = [(3, payload_for ''session:1'' JNull, ''status_update'')]"
    by (simp add: shared_resource_def shared_history_def status_frame_def invoked_since_def
        sse_defs any_url_def payload_for_def listened_def)
  note T = frames_reach_their_subscribers
    [where s = shared_resource 
       and es = "\<lparr> es_url = stream_url [''session:1'', ''session:2''], es_readyState = ES_OPEN \<rparr>"
       and name = "''status_update''" and payload = "payload_for ''session:1'' JNull"
       and r = "''session:1''" and accepts = any_url and name' = "''agent_status''"
       and parsed = "Some (payload_for ''session:1'' JNull)" and ?evs0.0 = shared_history
       and t = 0 and cb = 1 and evs = "[OnOpen, status_frame]" and A = 1 and B = 2 and d = JNull]
  note R1 = T [THEN conjunct2]
  note R2 = R1 [THEN conjunct2]
  note R3 = R2 [THEN conjunct2]
  note R4 = R3 [THEN conjunct2]
  note R5 = R4 [THEN conjunct2]
  note R6 = R5 [THEN conjunct2]
  note R7 = R6 [THEN conjunct2]
  have f: "invoked (step any_url status_frame shared_resource)
       = [(1, payload_for ''session:1'' JNull, ''status_update''),
          (3, payload_for ''session:1'' JNull, ''status_update'')]"
    using T [THEN conjunct1, THEN mp, OF conjI [OF e conjI [OF o conjI [OF l p]]]] c
    by (simp add: status_frame_def)
  have a: "invoked (step any_url agent_status_frame shared_resource) = []"
    using R1 [THEN conjunct1, THEN mp, OF l'] c(3) by (simp add: agent_status_frame_def)
  have s: "set (callbacks_of shared_resource ''session:1'') = {1, 3}"
    using R3 [THEN conjunct1] h by (auto simp: shared_resource_def)
  note U1 = T [where k = "''session:1''", THEN conjunct2, THEN conjunct2, THEN conjunct2,
               THEN conjunct2, THEN conjunct2, THEN conjunct1, THEN mp, OF k]
  note U2 = T [where k = "''session:2''", THEN conjunct2, THEN conjunct2, THEN conjunct2,
               THEN conjunct2, THEN conjunct2, THEN conjunct1, THEN mp, OF k]
  have r1: "callbacks_of (step any_url (Unsubscribe ''session:1'' 1) shared_resource)
      ''session:1'' = [3]"
    using U1 c by simp
  have r2: "callbacks_of (step any_url (Unsubscribe ''session:1'' 1) shared_resource)
      ''session:2'' = [2]"
    using U2 c by simp
  have g: "invoked (run any_url
        [Subscribe ''session:1'' 1, Subscribe ''session:2'' 2, OnOpen,
         Frame ''status_update'' (Some (payload_for ''session:1'' JNull)),
         Unsubscribe ''session:1'' 1, OnOpen,
         Frame ''status_update'' (Some (payload_for ''session:1'' JNull))] (new_SSEManager 0))
       = [(1, payload_for ''session:1'' JNull, ''status_update'')]"
    by (rule R7 [THEN mp, OF l, THEN conjunct2])
  show ?thesis
    by (intro conjI e l p f l' a s k r1 r2 n u g)
qed

subsection \<open>Reconnecting with backoff\<close>

lemma on_error_closing:
  assumes "eventSource s = Some es" "\<not> isManualClose s"
  shows "step accepts (OnError True) s =
           scheduleReconnect (stopHeartbeat (setConnectionState ERROR
             (s \<lparr> eventSource := Some (es \<lparr> es_readyState := ES_CLOSED \<rparr>) \<rparr>)))"
  using assms by (simp add: on_error_def Let_def)

lemma scheduleReconnect_more:
  assumes "reconnectAttempts s < maxReconnectAttempts"
  shows "reconnectAttempts (scheduleReconnect s) = Suc (reconnectAttempts s)"
    and "scheduled (scheduleReconnect s) = scheduled s @ [backoff (Suc (reconnectAttempts s))]"
    and "reconnectTimeout (scheduleReconnect s) = Some (backoff (Suc (reconnectAttempts s)))"
  using assms by (simp_all add: scheduleReconnect_def Let_def backoff_def)

lemma scheduleReconnect_exhausted:
  assumes "reconnectAttempts s \<ge> maxReconnectAttempts"
  shows "reconnectAttempts (scheduleReconnect s) = reconnectAttempts s"
    and "scheduled (scheduleReconnect s) = scheduled s"
    and "reconnectTimeout (scheduleReconnect s) = None"
    and "connectionState (scheduleReconnect s) = ERROR"
  using assms by (simp_all add: scheduleReconnect_def Let_def)

text \<open>An error that leaves the source closed.\<close>

lemma closing_error_step:
  assumes "eventSource s \<noteq> None" "\<not> isManualClose s"
      and "reconnectAttempts s \<le> maxReconnectAttempts"
  shows "eventSource (step accepts (OnError True) s) \<noteq> None"
    and "\<not> isManualClose (step accepts (OnError True) s)"
    and "subscriptions (step accepts (OnError True) s) = subscriptions s"
    and "invoked (step accepts (OnError True) s) = invoked s"
    and "reconnectAttempts (step accepts (OnError True) s)
           = min maxReconnectAttempts (Suc (reconnectAttempts s))"
    and "scheduled (step accepts (OnError True) s)
           = scheduled s @ (if reconnectAttempts s < maxReconnectAttempts
                            then [backoff (Suc (reconnectAttempts s))] else [])"
    and "maxReconnectAttempts \<le> reconnectAttempts s \<Longrightarrow> gave_up (step accepts (OnError True) s)"
proof -
  obtain es where es: "eventSource s = Some es" using assms(1) by auto
  define s0 where "s0 = stopHeartbeat (setConnectionState ERROR
             (s \<lparr> eventSource := Some (es \<lparr> es_readyState := ES_CLOSED \<rparr>) \<rparr>))"
  have e: "step accepts (OnError True) s = scheduleReconnect s0"
    using on_error_closing [OF es assms(2)] by (simp add: s0_def)
  have a0: "reconnectAttempts s0 = reconnectAttempts s" "scheduled s0 = scheduled s"
    "subscriptions s0 = subscriptions s" "invoked s0 = invoked s"
    "isManualClose s0 = isManualClose s" "\<not> heartbeatOn s0"
    "eventSource s0 = Some (es \<lparr> es_readyState := ES_CLOSED \<rparr>)"
    by (simp_all add: s0_def)
  show "eventSource (step accepts (OnError True) s) \<noteq> None"
    unfolding e using a0 by simp
  show "\<not> isManualClose (step accepts (OnError True) s)"
    unfolding e using a0 assms(2) by simp
  show "subscriptions (step accepts (OnError True) s) = subscriptions s"
    unfolding e using a0 by simp
  show "invoked (step accepts (OnError True) s) = invoked s"
    unfolding e using a0 by simp
  show "reconnectAttempts (step accepts (OnError True) s)
           = min maxReconnectAttempts (Suc (reconnectAttempts s))"
  proof (cases "reconnectAttempts s < maxReconnectAttempts")
    case True
    then show ?thesis
      unfolding e using scheduleReconnect_more(1) [of s0] a0 by simp
  next
    case False
    then show ?thesis
      unfolding e using scheduleReconnect_exhausted(1) [of s0] a0 assms(3) by simp
  qed
  show "scheduled (step accepts (OnError True) s)
           = scheduled s @ (if reconnectAttempts s < maxReconnectAttempts
                            then [backoff (Suc (reconnectAttempts s))] else [])"
  proof (cases "reconnectAttempts s < maxReconnectAttempts")
    case True
    then show ?thesis
      unfolding e using scheduleReconnect_more(2) [of s0] a0 by simp
  next
    case False
    then show ?thesis
      unfolding e using scheduleReconnect_exhausted(2) [of s0] a0 by simp
  qed
  show "gave_up (step accepts (OnError True) s)" if "maxReconnectAttempts \<le> reconnectAttempts s"
  proof -
    have x: "maxReconnectAttempts \<le> reconnectAttempts s0" using that a0 by simp
    note X = scheduleReconnect_exhausted [OF x]
    show ?thesis
      unfolding e gave_up_def using X a0 x by (simp add: has_live_source_def)
  qed
qed

lemma connect_opens_fields:
  assumes "\<not> has_live_source s" "subscriptions s \<noteq> []"
      and "accepts (stream_url (map fst (subscriptions s)))"
  shows "isManualClose (connect accepts s) = isManualClose s"
    and "scheduled (connect accepts s) = scheduled s"
    and "reconnectAttempts (connect accepts s) = reconnectAttempts s"
    and "eventSource (connect accepts s) \<noteq> None"
  using assms by (simp_all add: connect_def Let_def)

lemma reconnect_opens:
  assumes "subscriptions s \<noteq> []" "accepts (stream_url (map fst (subscriptions s)))"
  shows "eventSource (reconnect accepts s) \<noteq> None"
    and "\<not> isManualClose (reconnect accepts s)"
    and "subscriptions (reconnect accepts s) = subscriptions s"
    and "invoked (reconnect accepts s) = invoked s"
    and "scheduled (reconnect accepts s) = scheduled s"
    and "reconnectAttempts (reconnect accepts s) = reconnectAttempts s"
proof -
  have d: "\<not> has_live_source (disconnect s)" "subscriptions (disconnect s) \<noteq> []"
    "accepts (stream_url (map fst (subscriptions (disconnect s))))"
    using assms by simp_all
  note C = connect_opens_fields [of "disconnect s" accepts, OF d]
  show "eventSource (reconnect accepts s) \<noteq> None"
    unfolding reconnect_def by (rule C(4))
  show "\<not> isManualClose (reconnect accepts s)"
    unfolding reconnect_def using C(1) by simp
  show "subscriptions (reconnect accepts s) = subscriptions s"
    unfolding reconnect_def by simp
  show "invoked (reconnect accepts s) = invoked s"
    unfolding reconnect_def by simp
  show "scheduled (reconnect accepts s) = scheduled s"
    unfolding reconnect_def using C(2) by simp
  show "reconnectAttempts (reconnect accepts s) = reconnectAttempts s"
    unfolding reconnect_def using C(3) by simp
qed

text \<open>A timer or the heartbeat interval firing, or time passing.\<close>

lemma timer_step:
  assumes "ev = ReconnectTimer \<or> ev = HeartbeatTick \<or> (\<exists>ms. ev = Elapse ms)"
      and "eventSource s \<noteq> None" "\<not> isManualClose s" "subscriptions s \<noteq> []"
      and "accepts (stream_url (map fst (subscriptions s)))"
  shows "eventSource (step accepts ev s) \<noteq> None"
    and "\<not> isManualClose (step accepts ev s)"
    and "subscriptions (step accepts ev s) = subscriptions s"
    and "invoked (step accepts ev s) = invoked s"
    and "scheduled (step accepts ev s) = scheduled s"
    and "reconnectAttempts (step accepts ev s) = reconnectAttempts s"
proof -
  have r: "step accepts ev s = s \<or> (\<exists>ms. step accepts ev s = s \<lparr> clock := clock s + ms \<rparr>)
      \<or> step accepts ev s = reconnect accepts s
      \<or> step accepts ev s = reconnect accepts (s \<lparr> reconnectTimeout := None \<rparr>)"
    using assms(1) by (auto simp: on_heartbeat_tick_def split: option.splits)
  note A = reconnect_opens [of s accepts, OF assms(4,5)]
  have p: "subscriptions (s \<lparr> reconnectTimeout := None \<rparr>) \<noteq> []"
    "accepts (stream_url (map fst (subscriptions (s \<lparr> reconnectTimeout := None \<rparr>))))"
    using assms(4,5) by simp_all
  note B = reconnect_opens [of "s \<lparr> reconnectTimeout := None \<rparr>" accepts, OF p]
  show "eventSource (step accepts ev s) \<noteq> None"
    using r assms(2) A(1) B(1) by (elim disjE exE) simp_all
  show "\<not> isManualClose (step accepts ev s)"
    using r assms(3) A(2) B(2) by (elim disjE exE) simp_all
  show "subscriptions (step accepts ev s) = subscriptions s"
    using r A(3) B(3) by (elim disjE exE) simp_all
  show "invoked (step accepts ev s) = invoked s"
    using r A(4) B(4) by (elim disjE exE) simp_all
  show "scheduled (step accepts ev s) = scheduled s"
    using r A(5) B(5) by (elim disjE exE) simp_all
  show "reconnectAttempts (step accepts ev s) = reconnectAttempts s"
    using r A(6) B(6) by (elim disjE exE) simp_all
qed

text \<open>Once the manager has given up, nothing the browser does moves it.\<close>

lemma gave_up_step:
  assumes "gave_up s" "from_browser ev"
  shows "gave_up (step accepts ev s)
    \<and> scheduled (step accepts ev s) = scheduled s
    \<and> opened (step accepts ev s) = opened s
    \<and> invoked (step accepts ev s) = invoked s"
proof (cases ev)
  case OnOpen
  then show ?thesis
    using assms(1) by (auto simp: gave_up_def has_live_source_def split: option.splits)
next
  case (OnError fatal)
  have "eventSource s = None \<or> (\<exists>es. eventSource s = Some es \<and> es_readyState es = ES_CLOSED)"
    using assms(1) by (auto simp: gave_up_def has_live_source_def split: option.splits)
  then show ?thesis
  proof
    assume "eventSource s = None"
    then show ?thesis using OnError assms(1) by simp
  next
    assume "\<exists>es. eventSource s = Some es \<and> es_readyState es = ES_CLOSED"
    then obtain es where es: "eventSource s = Some es" "es_readyState es = ES_CLOSED" by blast
    define s0 where "s0 = stopHeartbeat (setConnectionState ERROR
             (s \<lparr> eventSource := Some (es \<lparr> es_readyState := ES_CLOSED \<rparr>) \<rparr>))"
    have e: "step accepts ev s = (if \<not> isManualClose s0 then scheduleReconnect s0 else s0)"
      using OnError es by (simp add: on_error_def Let_def s0_def)
    have a0: "maxReconnectAttempts \<le> reconnectAttempts s0" "scheduled s0 = scheduled s"
      "opened s0 = opened s" "invoked s0 = invoked s" "\<not> heartbeatOn s0"
      "eventSource s0 = Some (es \<lparr> es_readyState := ES_CLOSED \<rparr>)"
      "reconnectTimeout s0 = None" "connectionState s0 = ERROR"
      using assms(1) by (simp_all add: s0_def gave_up_def)
    note X = scheduleReconnect_exhausted [OF a0(1)]
    show ?thesis
      unfolding e gave_up_def using X a0 by (simp add: has_live_source_def)
  qed
next
  case (Frame name parsed)
  then show ?thesis
    using assms(1) by (auto simp: gave_up_def has_live_source_def split: option.splits)
next
  case ReconnectTimer
  then show ?thesis using assms(1) by (simp add: gave_up_def)
next
  case HeartbeatTick
  then show ?thesis using assms(1) by (simp add: gave_up_def)
next
  case (Elapse ms)
  then show ?thesis using assms(1) by (simp add: gave_up_def has_live_source_def)
qed (use assms(2) in simp_all)

lemma gave_up_run:
  assumes "gave_up s" "list_all from_browser evs"
  shows "gave_up (run accepts evs s)
    \<and> scheduled (run accepts evs s) = scheduled s
    \<and> opened (run accepts evs s) = opened s
    \<and> invoked (run accepts evs s) = invoked s"
  using assms
proof (induction evs arbitrary: s)
  case Nil
  then show ?case by simp
next
  case (Cons ev evs)
  have f: "from_browser ev" "list_all from_browser evs" using Cons.prems(2) by simp_all
  note S = gave_up_step [OF Cons.prems(1) f(1), of accepts]
  note I = Cons.IH [of "step accepts ev s", OF S [THEN conjunct1] f(2)]
  show ?case using S I by simp
qed

lemma transport_failure_cases:
  assumes "transport_failure ev"
  shows "ev = OnError True \<or> ev = ReconnectTimer \<or> ev = HeartbeatTick \<or> (\<exists>ms. ev = Elapse ms)"
  using assms by (cases ev) simp_all

lemma transport_failure_from_browser: "transport_failure ev \<Longrightarrow> from_browser ev"
  by (cases ev) simp_all

lemma backoff_upt:
  assumes "a < m"
  shows "map backoff [Suc a ..< Suc (min m (Suc a + c))]
           = backoff (Suc a) # map backoff [Suc (Suc a) ..< Suc (min m (Suc a + c))]"
proof -
  have "Suc a < Suc (min m (Suc a + c))" using assms by simp
  then have "[Suc a ..< Suc (min m (Suc a + c))]
      = Suc a # [Suc (Suc a) ..< Suc (min m (Suc a + c))]"
    by (rule upt_conv_Cons)
  then show ?thesis by (simp only: list.map)
qed

text \<open>
  While the transport only fails, every closing error schedules one reconnect until the
  attempts are used up, with the delay of its number, and nothing else schedules any.
\<close>

lemma transport_failure_run:
  assumes "list_all transport_failure evs"
      and "eventSource s \<noteq> None" "\<not> isManualClose s" "subscriptions s \<noteq> []"
      and "accepts (stream_url (map fst (subscriptions s)))"
      and "reconnectAttempts s \<le> maxReconnectAttempts"
  shows "scheduled (run accepts evs s)
           = scheduled s @ map backoff
               [Suc (reconnectAttempts s) ..<
                Suc (min maxReconnectAttempts
                       (reconnectAttempts s + count_list evs (OnError True)))]
     \<and> invoked (run accepts evs s) = invoked s
     \<and> (gave_up s \<or> maxReconnectAttempts < reconnectAttempts s + count_list evs (OnError True)
          \<longrightarrow> gave_up (run accepts evs s))"
  using assms
proof (induction evs arbitrary: s)
  case Nil
  then show ?case by (simp add: min_absorb2)
next
  case (Cons ev evs)
  have t: "transport_failure ev" "list_all transport_failure evs" using Cons.prems(1) by simp_all
  define s' where "s' = step accepts ev s"
  define c where "c = count_list evs (OnError True)"
  define a where "a = reconnectAttempts s"
  have r: "run accepts (ev # evs) s = run accepts evs s'" by (simp add: s'_def)
  show ?case
  proof (cases "ev = OnError True")
    case True
    have s'eq: "s' = step accepts (OnError True) s" using True by (simp add: s'_def)
    note E = closing_error_step [of s accepts, OF Cons.prems(2,3,6), folded s'eq]
    have sub: "subscriptions s' \<noteq> []" "accepts (stream_url (map fst (subscriptions s')))"
      using E(3) Cons.prems(4,5) by simp_all
    have le: "reconnectAttempts s' \<le> maxReconnectAttempts" using E(5) by simp
    note I = Cons.IH [OF t(2) E(1) E(2) sub le, folded c_def]
    have cnt: "count_list (ev # evs) (OnError True) = Suc c" using True by (simp add: c_def)
    have sch: "scheduled (run accepts evs s')
        = scheduled s @ map backoff [Suc a ..< Suc (min maxReconnectAttempts (a + Suc c))]"
    proof (cases "a < maxReconnectAttempts")
      case True
      have a': "reconnectAttempts s' = Suc a" using E(5) True by (simp add: a_def)
      have "scheduled (run accepts evs s')
          = (scheduled s @ [backoff (Suc a)])
            @ map backoff [Suc (Suc a) ..< Suc (min maxReconnectAttempts (Suc a + c))]"
        using I [THEN conjunct1] E(6) True a' by (simp add: a_def)
      then show ?thesis using backoff_upt [OF True, of c] by simp
    next
      case False
      then have am: "a = maxReconnectAttempts" using Cons.prems(6) by (simp add: a_def)
      have a': "reconnectAttempts s' = maxReconnectAttempts" using E(5) am by (simp add: a_def)
      have "scheduled (run accepts evs s') = scheduled s"
        using I [THEN conjunct1] E(6) am a' by (simp add: a_def)
      then show ?thesis using am by simp
    qed
    have inv: "invoked (run accepts evs s') = invoked s"
      using I [THEN conjunct2, THEN conjunct1] E(4) by simp
    have gu: "gave_up (run accepts evs s')"
      if g: "gave_up s \<or> maxReconnectAttempts < a + Suc c"
    proof (cases "a < maxReconnectAttempts")
      case True
      then have "\<not> gave_up s" by (simp add: gave_up_def a_def)
      then have "maxReconnectAttempts < a + Suc c" using g by simp
      moreover have "reconnectAttempts s' = Suc a" using E(5) True by (simp add: a_def)
      ultimately have "maxReconnectAttempts < reconnectAttempts s' + c" by simp
      then show ?thesis using I [THEN conjunct2, THEN conjunct2] by simp
    next
      case False
      then have "maxReconnectAttempts \<le> reconnectAttempts s" by (simp add: a_def)
      then have "gave_up s'" by (rule E(7))
      then show ?thesis using I [THEN conjunct2, THEN conjunct2] by simp
    qed
    show ?thesis
      unfolding r cnt a_def [symmetric] using sch inv gu by simp
  next
    case False
    then have q: "ev = ReconnectTimer \<or> ev = HeartbeatTick \<or> (\<exists>ms. ev = Elapse ms)"
      using transport_failure_cases [OF t(1)] by simp
    note Q = timer_step [of ev s accepts, OF q Cons.prems(2,3,4,5), folded s'_def]
    have sub: "subscriptions s' \<noteq> []" "accepts (stream_url (map fst (subscriptions s')))"
      using Q(3) Cons.prems(4,5) by simp_all
    have le: "reconnectAttempts s' \<le> maxReconnectAttempts" using Q(6) Cons.prems(6) by simp
    note I = Cons.IH [OF t(2) Q(1) Q(2) sub le, folded c_def]
    have cnt: "count_list (ev # evs) (OnError True) = c" using False by (simp add: c_def)
    have g: "gave_up s \<Longrightarrow> gave_up s'"
      using gave_up_step [OF _ transport_failure_from_browser [OF t(1)], of s accepts]
      by (simp add: s'_def)
    show ?thesis
      unfolding r cnt using I Q(4,5,6) g by auto
  qed
qed

lemma backoff_values:
  "map backoff [1..<11] = [1000, 2000, 4000, 8000, 16000, 30000, 30000, 30000, 30000, 30000]"
  by code_simp

lemma backoff_mono: "backoff n \<le> backoff (Suc n)"
proof -
  have "(2::int) ^ (n - 1) \<le> 2 ^ (Suc n - 1)"
    by (rule power_increasing) simp_all
  then have "initialReconnectDelay * 2 ^ (n - 1) \<le> initialReconnectDelay * 2 ^ (Suc n - 1)"
    by (simp add: initialReconnectDelay_def)
  then show ?thesis
    unfolding backoff_def by (rule min.mono) simp
qed

lemma backoff_capped: "backoff n \<le> maxReconnectDelay"
  by (simp add: backoff_def)

lemma twelve_errors_transport:
  "list_all transport_failure twelve_errors" "11 \<le> count_list twelve_errors (OnError True)"
  by (simp_all add: twelve_errors_def numeral_eq_Suc)

text \<open>An error after which the browser reconnects by itself schedules nothing.\<close>

lemma retried_error_step:
  assumes "has_live_source s"
  shows "has_live_source (step accepts (OnError False) s)"
    and "scheduled (step accepts (OnError False) s) = scheduled s"
    and "connectionState (step accepts (OnError False) s) = ERROR"
    and "reconnectTimeout (step accepts (OnError False) s) = reconnectTimeout s"
  using assms
  by (auto simp: has_live_source_def on_error_def Let_def split: option.splits)

lemma retried_errors_run:
  assumes "has_live_source s"
  shows "has_live_source (run accepts (replicate n (OnError False)) s)
     \<and> scheduled (run accepts (replicate n (OnError False)) s) = scheduled s
     \<and> reconnectTimeout (run accepts (replicate n (OnError False)) s) = reconnectTimeout s
     \<and> (0 < n \<longrightarrow> connectionState (run accepts (replicate n (OnError False)) s) = ERROR)"
  using assms
proof (induction n arbitrary: s)
  case 0
  then show ?case by simp
next
  case (Suc n)
  note R = retried_error_step [OF Suc.prems, of accepts]
  note I = Suc.IH [OF R(1)]
  show ?case
  proof (cases n)
    case 0
    then show ?thesis using R by simp
  next
    case (Suc m)
    then show ?thesis using I R by simp
  qed
qed

text \<open>
  C4 as stated fails: \<open>onerror\<close> schedules a reconnect only when the error
  has left the source closed.  Twelve transport errors in a row after each of which the
  browser reconnects by itself schedule no reconnect at all, and the state \<open>ERROR\<close> they
  leave is not final: the next \<open>open\<close> makes it \<open>CONNECTED\<close>.
\<close>

theorem retried_errors_counterexample:
  "has_live_source connected_manager
   \<and> \<not> isManualClose connected_manager
   \<and> reconnectAttempts connected_manager = 0
   \<and> scheduled connected_manager = []
   \<and> twelve_retried_errors = replicate 12 (OnError False)
   \<and> scheduled (run any_url twelve_retried_errors connected_manager) = []
   \<and> reconnectTimeout (run any_url twelve_retried_errors connected_manager) = None
   \<and> connectionState (run any_url twelve_retried_errors connected_manager) = ERROR
   \<and> connectionState (run any_url (twelve_retried_errors @ [OnOpen]) connected_manager)
       = CONNECTED"
proof -
  have h1: "has_live_source connected_manager"
    by (simp add: connected_manager_def sse_defs any_url_def)
  have h2: "\<not> isManualClose connected_manager"
    by (simp add: connected_manager_def sse_defs any_url_def)
  have h3: "reconnectAttempts connected_manager = 0"
    by (simp add: connected_manager_def sse_defs any_url_def)
  have s0: "scheduled connected_manager = []" "reconnectTimeout connected_manager = None"
    by (simp_all add: connected_manager_def sse_defs any_url_def)
  define s12 where "s12 = run any_url twelve_retried_errors connected_manager"
  note R = retried_errors_run [OF h1, of any_url 12, folded twelve_retried_errors_def s12_def]
  have l: "has_live_source s12" by (rule R [THEN conjunct1])
  have t1: "scheduled s12 = []" using R s0 by simp
  have t2: "reconnectTimeout s12 = None" using R s0 by simp
  have t3: "connectionState s12 = ERROR" using R by simp
  obtain es where es: "eventSource s12 = Some es" "es_readyState es \<noteq> ES_CLOSED"
    using l by (auto simp: has_live_source_def split: option.splits)
  have c: "es_readyState es = ES_CONNECTING"
  proof -
    have "run any_url twelve_retried_errors connected_manager
        = step any_url (OnError False)
            (run any_url (replicate 11 (OnError False)) connected_manager)"
      unfolding twelve_retried_errors_def
      using run_append [of any_url "replicate 11 (OnError False)" "[OnError False]"
          connected_manager]
      by (simp add: numeral_eq_Suc replicate_append_same)
    then have "eventSource s12
        = eventSource (step any_url (OnError False)
            (run any_url (replicate 11 (OnError False)) connected_manager))"
      by (simp add: s12_def)
    moreover have "has_live_source (run any_url (replicate 11 (OnError False)) connected_manager)"
      by (rule retried_errors_run [OF h1, THEN conjunct1])
    ultimately show ?thesis
      using es(1)
      by (auto simp: has_live_source_def on_error_def Let_def split: option.splits)
  qed
  have t4: "connectionState (run any_url (twelve_retried_errors @ [OnOpen]) connected_manager)
       = CONNECTED"
    unfolding run_append s12_def [symmetric] using es(1) c
    by (simp add: on_open_def Let_def startHeartbeat_def)
  have f1: "scheduled (run any_url twelve_retried_errors connected_manager) = []"
    using t1 by (simp add: s12_def)
  have f2: "reconnectTimeout (run any_url twelve_retried_errors connected_manager) = None"
    using t2 by (simp add: s12_def)
  have f3: "connectionState (run any_url twelve_retried_errors connected_manager) = ERROR"
    using t3 by (simp add: s12_def)
  show ?thesis
    by (intro conjI h1 h2 h3 s0(1) twelve_retried_errors_def f1 f2 f3 t4)
qed

text \<open>
  C4, as amended.  Take a manager with a source, no reconnect attempt counted, at least one
  subscription, and a constructor that takes the url of its subscriptions.  Let the
  transport only fail: errors that leave the source closed, the reconnect timer and the
  heartbeat interval firing and time passing, in any order, with no \<open>open\<close>, no frame and
  no call by the application between.  When eleven or more such errors have come, so
  after twelve, exactly ten reconnects have been scheduled: the delay before the \<open>n\<close>-th
  is \<open>min (initialReconnectDelay * 2 ^ (n - 1)) maxReconnectDelay\<close>, that is 1, 2, 4, 8, 16
  and then five times 30 seconds, never decreasing and never above 30 seconds.  The
  connection state is then \<open>ERROR\<close>, no timer is pending and no callback has been invoked;
  and whatever the browser does from then on, no reconnect is scheduled, no connection is
  opened and the state stays \<open>ERROR\<close>.
\<close>

theorem reconnect_backoff_gives_up:
  assumes "eventSource s \<noteq> None" "\<not> isManualClose s" "reconnectAttempts s = 0"
      and "subscriptions s \<noteq> []"
      and "accepts (stream_url (map fst (subscriptions s)))"
      and "list_all transport_failure evs"
      and "11 \<le> count_list evs (OnError True)"
  shows "scheduled (run accepts evs s) = scheduled s @ map backoff [1..<11]
     \<and> map backoff [1..<11]
         = [1000, 2000, 4000, 8000, 16000, 30000, 30000, 30000, 30000, 30000]
     \<and> (\<forall>n. backoff n \<le> backoff (Suc n) \<and> backoff n \<le> maxReconnectDelay)
     \<and> connectionState (run accepts evs s) = ERROR
     \<and> reconnectTimeout (run accepts evs s) = None
     \<and> invoked (run accepts evs s) = invoked s
     \<and> (\<forall>evs'. list_all from_browser evs' \<longrightarrow>
           scheduled (run accepts evs' (run accepts evs s)) = scheduled (run accepts evs s)
           \<and> opened (run accepts evs' (run accepts evs s)) = opened (run accepts evs s)
           \<and> connectionState (run accepts evs' (run accepts evs s)) = ERROR)"
proof -
  have le: "reconnectAttempts s \<le> maxReconnectAttempts" using assms(3) by simp
  note R = transport_failure_run [of evs s accepts, OF assms(6,1,2,4,5) le]
  have m: "min maxReconnectAttempts (reconnectAttempts s + count_list evs (OnError True)) = 10"
    using assms(3,7) by (simp add: maxReconnectAttempts_def)
  have 1: "scheduled (run accepts evs s) = scheduled s @ map backoff [1..<11]"
    using R [THEN conjunct1] assms(3) unfolding m by simp
  have 2: "invoked (run accepts evs s) = invoked s"
    by (rule R [THEN conjunct2, THEN conjunct1])
  have "maxReconnectAttempts < reconnectAttempts s + count_list evs (OnError True)"
    using assms(3,7) by (simp add: maxReconnectAttempts_def)
  then have g: "gave_up (run accepts evs s)"
    using R [THEN conjunct2, THEN conjunct2] by simp
  have 3: "connectionState (run accepts evs s) = ERROR"
    "reconnectTimeout (run accepts evs s) = None"
    using g by (simp_all add: gave_up_def)
  have 4: "\<forall>evs'. list_all from_browser evs' \<longrightarrow>
           scheduled (run accepts evs' (run accepts evs s)) = scheduled (run accepts evs s)
           \<and> opened (run accepts evs' (run accepts evs s)) = opened (run accepts evs s)
           \<and> connectionState (run accepts evs' (run accepts evs s)) = ERROR"
  proof (intro allI impI)
    fix evs'
    assume b: "list_all from_browser evs'"
    note G = gave_up_run [OF g b, of accepts]
    have "connectionState (run accepts evs' (run accepts evs s)) = ERROR"
      using G [THEN conjunct1] by (simp add: gave_up_def)
    then show "scheduled (run accepts evs' (run accepts evs s)) = scheduled (run accepts evs s)
           \<and> opened (run accepts evs' (run accepts evs s)) = opened (run accepts evs s)
           \<and> connectionState (run accepts evs' (run accepts evs s)) = ERROR"
      using G by simp
  qed
  have 5: "\<forall>n. backoff n \<le> backoff (Suc n) \<and> backoff n \<le> maxReconnectDelay"
    using backoff_mono backoff_capped by blast
  show ?thesis
    by (intro conjI 1 backoff_values 5 3 2 4)
qed

text \<open>
  The theorem on a manager with one subscription and an open connection, for twelve
  closing errors with the reconnect timer firing after each, and for twelve closing
  errors with nothing between them.
\<close>

theorem reconnect_backoff_gives_up_witness:
  "eventSource connected_manager \<noteq> None
   \<and> \<not> isManualClose connected_manager
   \<and> reconnectAttempts connected_manager = 0
   \<and> subscriptions connected_manager \<noteq> []
   \<and> any_url (stream_url (map fst (subscriptions connected_manager)))
   \<and> list_all transport_failure twelve_errors
   \<and> 11 \<le> count_list twelve_errors (OnError True)
   \<and> scheduled (run any_url twelve_errors connected_manager)
       = [1000, 2000, 4000, 8000, 16000, 30000, 30000, 30000, 30000, 30000]
   \<and> connectionState (run any_url twelve_errors connected_manager) = ERROR
   \<and> reconnectTimeout (run any_url twelve_errors connected_manager) = None
   \<and> invoked (run any_url twelve_errors connected_manager) = []
   \<and> list_all from_browser [OnError True, ReconnectTimer, HeartbeatTick, OnOpen]
   \<and> scheduled (run any_url [OnError True, ReconnectTimer, HeartbeatTick, OnOpen]
                  (run any_url twelve_errors connected_manager))
       = [1000, 2000, 4000, 8000, 16000, 30000, 30000, 30000, 30000, 30000]
   \<and> connectionState (run any_url [OnError True, ReconnectTimer, HeartbeatTick, OnOpen]
                        (run any_url twelve_errors connected_manager)) = ERROR
   \<and> list_all transport_failure (replicate 12 (OnError True))
   \<and> 11 \<le> count_list (replicate 12 (OnError True)) (OnError True)
   \<and> scheduled (run any_url (replicate 12 (OnError True)) connected_manager)
       = [1000, 2000, 4000, 8000, 16000, 30000, 30000, 30000, 30000, 30000]"
proof -
  have h1: "eventSource connected_manager \<noteq> None"
    by (simp add: connected_manager_def sse_defs any_url_def)
  have h2: "\<not> isManualClose connected_manager"
    by (simp add: connected_manager_def sse_defs any_url_def)
  have h3: "reconnectAttempts connected_manager = 0"
    by (simp add: connected_manager_def sse_defs any_url_def)
  have h4: "subscriptions connected_manager \<noteq> []"
    by (simp add: connected_manager_def sse_defs any_url_def)
  have h5: "any_url (stream_url (map fst (subscriptions connected_manager)))"
    by (simp add: any_url_def)
  have h6: "list_all transport_failure twelve_errors"
    by (rule twelve_errors_transport(1))
  have h7: "11 \<le> count_list twelve_errors (OnError True)"
    by (rule twelve_errors_transport(2))
  have s0: "scheduled connected_manager = []" "invoked connected_manager = []"
    by (simp_all add: connected_manager_def sse_defs any_url_def)
  note T = reconnect_backoff_gives_up
    [of connected_manager any_url twelve_errors, OF h1 h2 h3 h4 h5 h6 h7]
  have v: "map backoff [1..<11]
      = [1000, 2000, 4000, 8000, 16000, 30000, 30000, 30000, 30000, 30000]"
    by (rule T [THEN conjunct2, THEN conjunct1])
  have t1: "scheduled (run any_url twelve_errors connected_manager)
       = [1000, 2000, 4000, 8000, 16000, 30000, 30000, 30000, 30000, 30000]"
    using T [THEN conjunct1] s0 v by simp
  have t2: "connectionState (run any_url twelve_errors connected_manager) = ERROR"
    by (rule T [THEN conjunct2, THEN conjunct2, THEN conjunct2, THEN conjunct1])
  have t3: "reconnectTimeout (run any_url twelve_errors connected_manager) = None"
    by (rule T [THEN conjunct2, THEN conjunct2, THEN conjunct2, THEN conjunct2, THEN conjunct1])
  have t4: "invoked (run any_url twelve_errors connected_manager) = []"
    using T [THEN conjunct2, THEN conjunct2, THEN conjunct2, THEN conjunct2, THEN conjunct2,
             THEN conjunct1] s0 by simp
  have b: "list_all from_browser [OnError True, ReconnectTimer, HeartbeatTick, OnOpen]"
    by simp
  note A = T [THEN conjunct2, THEN conjunct2, THEN conjunct2, THEN conjunct2, THEN conjunct2,
              THEN conjunct2, THEN spec, THEN mp, OF b]
  have t5: "scheduled (run any_url [OnError True, ReconnectTimer, HeartbeatTick, OnOpen]
                  (run any_url twelve_errors connected_manager))
       = [1000, 2000, 4000, 8000, 16000, 30000, 30000, 30000, 30000, 30000]"
    using A [THEN conjunct1] t1 by simp
  have t6: "connectionState (run any_url [OnError True, ReconnectTimer, HeartbeatTick, OnOpen]
                        (run any_url twelve_errors connected_manager)) = ERROR"
    by (rule A [THEN conjunct2, THEN conjunct2])
  have g6: "list_all transport_failure (replicate 12 (OnError True))"
    by (simp add: list_all_length)
  have g7: "11 \<le> count_list (replicate 12 (OnError True)) (OnError True)"
    by (simp add: numeral_eq_Suc)
  note U = reconnect_backoff_gives_up
    [of connected_manager any_url "replicate 12 (OnError True)", OF h1 h2 h3 h4 h5 g6 g7]
  have u1: "scheduled (run any_url (replicate 12 (OnError True)) connected_manager)
       = [1000, 2000, 4000, 8000, 16000, 30000, 30000, 30000, 30000, 30000]"
    using U [THEN conjunct1] s0 v by simp
  show ?thesis
    by (intro conjI h1 h2 h3 h4 h5 h6 h7 t1 t2 t3 t4 b t5 t6 g6 g7 u1)
qed

section \<open>Properties of the workflow components\<close>

subsection \<open>Discard and reset\<close>

lemmas flow_defs =
  handleReset_def handleDiscard_def discard_and_render_def useSSESubscription_def
  subscribed_resource_def precedes_def ORCHESTRATOR_SESSION_def CREATION_SESSION_def
  STORAGE_KEY_PREFIX_def orchestrator_channel_def editing_flow_def selecting_flow_def
  nameless_flow_def
  server_session_def a_task_def rename_task_def handleSSE_def refreshSession_def
  sync_editingPlan_def refreshes_def message_or_def

text \<open>
  C8 as stated has both flows do (a) server-side deletion, (b) clearing the persisted
  identifier, (c) unsubscribing and (d) returning to the initial phase, in that order.
  \<open>handleReset\<close> unsubscribes first: the deletion request does not precede the
  unsubscription, nor does the removal of the stored identifier.  \<open>handleDiscard\<close> removes
  nothing from \<open>localStorage\<close> (the creation flow stores no identifier there), and when the
  deletion request fails it leaves the step where it was.
\<close>

theorem discard_order_counterexample:
  "snd (handleReset ''inf'' ''s2'' True editing_flow) =
     [CallUnsubscribe ''orchestrator:s1'', HttpDelete ''/orchestrator/s1'',
      RemoveItem ''orch_session_inf'', SetItem ''orch_session_inf'' ''s2'',
      SetState ''sessionId'', SetState ''session'', SetState ''currentStep'', SetState ''query'',
      SetState ''postTypeHint'', SetState ''editingPlan'', SetState ''selectedWebIds'',
      SetState ''selectedImageIds'', SetState ''error'', SetState ''loading'',
      SetState ''statusMsg'']
   \<and> \<not> precedes (HttpDelete ''/orchestrator/s1'') (CallUnsubscribe ''orchestrator:s1'')
         (snd (handleReset ''inf'' ''s2'' True editing_flow))
   \<and> \<not> precedes (RemoveItem ''orch_session_inf'') (CallUnsubscribe ''orchestrator:s1'')
         (snd (handleReset ''inf'' ''s2'' True editing_flow))
   \<and> filter is_RemoveItem (snd (discard_and_render None selecting_flow)) = []
   \<and> cf_step (fst (discard_and_render (Some ''Server error'') selecting_flow)) = S_select_avatar
   \<and> snd (discard_and_render (Some ''Server error'') selecting_flow)
       = [HttpDelete ''/creation/c1'', SetState ''error'']"
  by (simp add: flow_defs)

text \<open>
  C8, as amended.  \<open>handleReset\<close> of the orchestrator flow, whether or not the server
  deletes the session, requests the deletion, then removes the stored identifier (and
  stores a new one), then returns to step 1 with no session.  Before all that it calls the
  unsubscribe function of the old channel when \<open>unsubRef\<close> holds one, and empties
  \<open>unsubRef\<close>; when \<open>unsubRef\<close> is empty, as it is for a second reset that starts while
  the deletion of the first is awaited, it unsubscribes from nothing.  \<open>handleDiscard\<close> of
  the creation flow, which keeps no identifier in \<open>localStorage\<close>, does nothing without a
  session; with one it requests the deletion, and when that succeeds it drops the session
  and returns to the input step, upon which the subscription hook unsubscribes from the
  session's resource if the session has an identifier that is not empty (there is no
  subscription otherwise); when the deletion fails it only records the error.
\<close>

theorem discard_steps:
  "snd (handleReset influencerId newId deleted st) =
     (case unsubRef st of None \<Rightarrow> [] | Some channel \<Rightarrow> [CallUnsubscribe channel])
     @ [HttpDelete (ORCHESTRATOR_SESSION (sessionId st)),
        RemoveItem (STORAGE_KEY_PREFIX @ influencerId),
        SetItem (STORAGE_KEY_PREFIX @ influencerId) newId]
     @ map SetState
         [''sessionId'', ''session'', ''currentStep'', ''query'', ''postTypeHint'',
          ''editingPlan'', ''selectedWebIds'', ''selectedImageIds'', ''error'', ''loading'',
          ''statusMsg'']
   \<and> currentStep (fst (handleReset influencerId newId deleted st)) = 1
   \<and> session (fst (handleReset influencerId newId deleted st)) = None
   \<and> unsubRef (fst (handleReset influencerId newId deleted st)) = None
   \<and> (unsubRef st = Some channel \<longrightarrow>
        precedes (CallUnsubscribe channel) (HttpDelete (ORCHESTRATOR_SESSION (sessionId st)))
          (snd (handleReset influencerId newId deleted st))
        \<and> precedes (HttpDelete (ORCHESTRATOR_SESSION (sessionId st)))
            (RemoveItem (STORAGE_KEY_PREFIX @ influencerId))
            (snd (handleReset influencerId newId deleted st))
        \<and> precedes (RemoveItem (STORAGE_KEY_PREFIX @ influencerId)) (SetState ''currentStep'')
            (snd (handleReset influencerId newId deleted st)))
   \<and> (unsubRef st = None \<longrightarrow>
        snd (handleReset influencerId newId deleted st) =
          [HttpDelete (ORCHESTRATOR_SESSION (sessionId st)),
           RemoveItem (STORAGE_KEY_PREFIX @ influencerId),
           SetItem (STORAGE_KEY_PREFIX @ influencerId) newId]
          @ map SetState
              [''sessionId'', ''session'', ''currentStep'', ''query'', ''postTypeHint'',
               ''editingPlan'', ''selectedWebIds'', ''selectedImageIds'', ''error'', ''loading'',
               ''statusMsg'']
        \<and> precedes (HttpDelete (ORCHESTRATOR_SESSION (sessionId st)))
            (RemoveItem (STORAGE_KEY_PREFIX @ influencerId))
            (snd (handleReset influencerId newId deleted st))
        \<and> precedes (RemoveItem (STORAGE_KEY_PREFIX @ influencerId)) (SetState ''currentStep'')
            (snd (handleReset influencerId newId deleted st)))
   \<and> snd (handleReset influencerId newId' deleted'
             (st \<lparr> unsubRef := unsubRef (fst (handleReset influencerId newId deleted st)) \<rparr>)) =
       [HttpDelete (ORCHESTRATOR_SESSION (sessionId st)),
        RemoveItem (STORAGE_KEY_PREFIX @ influencerId),
        SetItem (STORAGE_KEY_PREFIX @ influencerId) newId']
       @ map SetState
           [''sessionId'', ''session'', ''currentStep'', ''query'', ''postTypeHint'',
            ''editingPlan'', ''selectedWebIds'', ''selectedImageIds'', ''error'', ''loading'',
            ''statusMsg'']
   \<and> (cf_session cst = Some sess \<and> cs_id sess \<noteq> [] \<longrightarrow>
        snd (discard_and_render None cst) =
          HttpDelete (CREATION_SESSION (cs_id sess))
          # map SetState [''session'', ''step'', ''location'', ''prompt'', ''selectedAvatar'',
                          ''error'']
          @ [CallUnsubscribe (''session:'' @ cs_id sess)]
        \<and> cf_step (fst (discard_and_render None cst)) = S_input
        \<and> cf_session (fst (discard_and_render None cst)) = None
        \<and> snd (discard_and_render (Some msg) cst)
            = [HttpDelete (CREATION_SESSION (cs_id sess)), SetState ''error'']
        \<and> fst (discard_and_render (Some msg) cst) = cst \<lparr> cf_error := Some msg \<rparr>)
   \<and> (cf_session cst = Some sess \<and> cs_id sess = [] \<longrightarrow>
        snd (discard_and_render None cst) =
          HttpDelete (CREATION_SESSION [])
          # map SetState [''session'', ''step'', ''location'', ''prompt'', ''selectedAvatar'',
                          ''error'']
        \<and> cf_step (fst (discard_and_render None cst)) = S_input
        \<and> cf_session (fst (discard_and_render None cst)) = None
        \<and> snd (discard_and_render (Some msg) cst)
            = [HttpDelete (CREATION_SESSION []), SetState ''error''])
   \<and> (cf_session cst = None \<longrightarrow> discard_and_render failure cst = (cst, []))"
proof -
  have 1: "snd (handleReset influencerId newId deleted st) =
     (case unsubRef st of None \<Rightarrow> [] | Some channel \<Rightarrow> [CallUnsubscribe channel])
     @ [HttpDelete (ORCHESTRATOR_SESSION (sessionId st)),
        RemoveItem (STORAGE_KEY_PREFIX @ influencerId),
        SetItem (STORAGE_KEY_PREFIX @ influencerId) newId]
     @ map SetState
         [''sessionId'', ''session'', ''currentStep'', ''query'', ''postTypeHint'',
          ''editingPlan'', ''selectedWebIds'', ''selectedImageIds'', ''error'', ''loading'',
          ''statusMsg'']"
    by (simp add: handleReset_def)
  have 2: "currentStep (fst (handleReset influencerId newId deleted st)) = 1"
    "session (fst (handleReset influencerId newId deleted st)) = None"
    "unsubRef (fst (handleReset influencerId newId deleted st)) = None"
    by (simp_all add: handleReset_def)
  have 3: "unsubRef st = Some channel \<longrightarrow>
        precedes (CallUnsubscribe channel) (HttpDelete (ORCHESTRATOR_SESSION (sessionId st)))
          (snd (handleReset influencerId newId deleted st))
        \<and> precedes (HttpDelete (ORCHESTRATOR_SESSION (sessionId st)))
            (RemoveItem (STORAGE_KEY_PREFIX @ influencerId))
            (snd (handleReset influencerId newId deleted st))
        \<and> precedes (RemoveItem (STORAGE_KEY_PREFIX @ influencerId)) (SetState ''currentStep'')
            (snd (handleReset influencerId newId deleted st))"
    by (simp add: handleReset_def precedes_def)
  have 4: "cf_session cst = Some sess \<and> cs_id sess \<noteq> [] \<longrightarrow>
        snd (discard_and_render None cst) =
          HttpDelete (CREATION_SESSION (cs_id sess))
          # map SetState [''session'', ''step'', ''location'', ''prompt'', ''selectedAvatar'',
                          ''error'']
          @ [CallUnsubscribe (''session:'' @ cs_id sess)]
        \<and> cf_step (fst (discard_and_render None cst)) = S_input
        \<and> cf_session (fst (discard_and_render None cst)) = None
        \<and> snd (discard_and_render (Some msg) cst)
            = [HttpDelete (CREATION_SESSION (cs_id sess)), SetState ''error'']
        \<and> fst (discard_and_render (Some msg) cst) = cst \<lparr> cf_error := Some msg \<rparr>"
    by (simp add: discard_and_render_def handleDiscard_def useSSESubscription_def
        subscribed_resource_def)
  have 5: "cf_session cst = None \<longrightarrow> discard_and_render failure cst = (cst, [])"
    by (simp add: discard_and_render_def handleDiscard_def useSSESubscription_def
        subscribed_resource_def)
  have 6: "unsubRef st = None \<longrightarrow>
        snd (handleReset influencerId newId deleted st) =
          [HttpDelete (ORCHESTRATOR_SESSION (sessionId st)),
           RemoveItem (STORAGE_KEY_PREFIX @ influencerId),
           SetItem (STORAGE_KEY_PREFIX @ influencerId) newId]
          @ map SetState
              [''sessionId'', ''session'', ''currentStep'', ''query'', ''postTypeHint'',
               ''editingPlan'', ''selectedWebIds'', ''selectedImageIds'', ''error'', ''loading'',
               ''statusMsg'']
        \<and> precedes (HttpDelete (ORCHESTRATOR_SESSION (sessionId st)))
            (RemoveItem (STORAGE_KEY_PREFIX @ influencerId))
            (snd (handleReset influencerId newId deleted st))
        \<and> precedes (RemoveItem (STORAGE_KEY_PREFIX @ influencerId)) (SetState ''currentStep'')
            (snd (handleReset influencerId newId deleted st))"
    by (simp add: handleReset_def precedes_def)
  have 7: "snd (handleReset influencerId newId' deleted'
             (st \<lparr> unsubRef := unsubRef (fst (handleReset influencerId newId deleted st)) \<rparr>)) =
       [HttpDelete (ORCHESTRATOR_SESSION (sessionId st)),
        RemoveItem (STORAGE_KEY_PREFIX @ influencerId),
        SetItem (STORAGE_KEY_PREFIX @ influencerId) newId']
       @ map SetState
           [''sessionId'', ''session'', ''currentStep'', ''query'', ''postTypeHint'',
            ''editingPlan'', ''selectedWebIds'', ''selectedImageIds'', ''error'', ''loading'',
            ''statusMsg'']"
    by (simp add: handleReset_def)
  have 8: "cf_session cst = Some sess \<and> cs_id sess = [] \<longrightarrow>
        snd (discard_and_render None cst) =
          HttpDelete (CREATION_SESSION [])
          # map SetState [''session'', ''step'', ''location'', ''prompt'', ''selectedAvatar'',
                          ''error'']
        \<and> cf_step (fst (discard_and_render None cst)) = S_input
        \<and> cf_session (fst (discard_and_render None cst)) = None
        \<and> snd (discard_and_render (Some msg) cst)
            = [HttpDelete (CREATION_SESSION []), SetState ''error'']"
    by (simp add: discard_and_render_def handleDiscard_def useSSESubscription_def
        subscribed_resource_def)
  show ?thesis
    by (intro conjI 1 2 3 6 7 4 8 5)
qed

text \<open>
  The theorem on the two concrete flows, on a second reset of \<open>editing_flow\<close> started
  while the first awaits the deletion, and on a creation flow whose session has the empty
  identifier.
\<close>

theorem discard_steps_witness:
  "unsubRef editing_flow = Some ''orchestrator:s1''
   \<and> precedes (CallUnsubscribe ''orchestrator:s1'')
        (HttpDelete (ORCHESTRATOR_SESSION (sessionId editing_flow)))
        (snd (handleReset ''inf'' ''s2'' False editing_flow))
   \<and> precedes (HttpDelete (ORCHESTRATOR_SESSION (sessionId editing_flow)))
        (RemoveItem (STORAGE_KEY_PREFIX @ ''inf''))
        (snd (handleReset ''inf'' ''s2'' False editing_flow))
   \<and> precedes (RemoveItem (STORAGE_KEY_PREFIX @ ''inf'')) (SetState ''currentStep'')
        (snd (handleReset ''inf'' ''s2'' False editing_flow))
   \<and> currentStep (fst (handleReset ''inf'' ''s2'' False editing_flow)) = 1
   \<and> unsubRef (editing_flow \<lparr> unsubRef := None \<rparr>) = None
   \<and> snd (handleReset ''inf'' ''s3'' True (editing_flow \<lparr> unsubRef := None \<rparr>)) =
       [HttpDelete ''/orchestrator/s1'', RemoveItem ''orch_session_inf'',
        SetItem ''orch_session_inf'' ''s3'',
        SetState ''sessionId'', SetState ''session'', SetState ''currentStep'', SetState ''query'',
        SetState ''postTypeHint'', SetState ''editingPlan'', SetState ''selectedWebIds'',
        SetState ''selectedImageIds'', SetState ''error'', SetState ''loading'',
        SetState ''statusMsg'']
   \<and> cf_session selecting_flow
       = Some \<lparr> cs_id = ''c1'', cs_status = CS_images_ready, cs_location = ''Tokyo, Japan'',
                cs_prompt = ''tech'' \<rparr>
   \<and> snd (discard_and_render None selecting_flow) =
       [HttpDelete (CREATION_SESSION ''c1''), SetState ''session'', SetState ''step'',
        SetState ''location'', SetState ''prompt'', SetState ''selectedAvatar'', SetState ''error'',
        CallUnsubscribe ''session:c1'']
   \<and> cf_step (fst (discard_and_render None selecting_flow)) = S_input
   \<and> cf_session (selecting_flow \<lparr> cf_session := None \<rparr>) = None
   \<and> discard_and_render None (selecting_flow \<lparr> cf_session := None \<rparr>)
       = (selecting_flow \<lparr> cf_session := None \<rparr>, [])
   \<and> cf_session nameless_flow
       = Some \<lparr> cs_id = [], cs_status = CS_images_ready, cs_location = ''Tokyo, Japan'',
                cs_prompt = ''tech'' \<rparr>
   \<and> snd (discard_and_render None nameless_flow) =
       [HttpDelete ''/creation/'', SetState ''session'', SetState ''step'',
        SetState ''location'', SetState ''prompt'', SetState ''selectedAvatar'', SetState ''error'']"
proof -
  let ?sess = "\<lparr> cs_id = ''c1'', cs_status = CS_images_ready, cs_location = ''Tokyo, Japan'',
                cs_prompt = ''tech'' \<rparr>"
  let ?none = "\<lparr> cs_id = [], cs_status = CS_images_ready, cs_location = ''Tokyo, Japan'',
                cs_prompt = ''tech'' \<rparr>"
  have u: "unsubRef editing_flow = Some ''orchestrator:s1''"
    by (simp add: editing_flow_def orchestrator_channel_def)
  have c: "cf_session selecting_flow = Some ?sess"
    by (simp add: selecting_flow_def)
  have n: "cs_id ?sess \<noteq> []" by simp
  note T = discard_steps [where influencerId = "''inf''" and newId = "''s2''" and deleted = False
      and st = editing_flow and channel = "''orchestrator:s1''" and cst = selecting_flow
      and sess = ?sess and msg = "''Server error''" and failure = None]
  note R4 = T [THEN conjunct2, THEN conjunct2, THEN conjunct2, THEN conjunct2]
  note O = R4 [THEN conjunct1, THEN mp, OF u]
  note C = R4 [THEN conjunct2, THEN conjunct2, THEN conjunct2, THEN conjunct1, THEN mp,
               OF conjI [OF c n]]
  have s: "currentStep (fst (handleReset ''inf'' ''s2'' False editing_flow)) = 1"
    by (rule T [THEN conjunct2, THEN conjunct1])
  have e: "snd (discard_and_render None selecting_flow) =
       [HttpDelete (CREATION_SESSION ''c1''), SetState ''session'', SetState ''step'',
        SetState ''location'', SetState ''prompt'', SetState ''selectedAvatar'', SetState ''error'',
        CallUnsubscribe ''session:c1'']"
    using C [THEN conjunct1] by simp
  have u2: "unsubRef (editing_flow \<lparr> unsubRef := None \<rparr>) = None" by simp
  note T2 = discard_steps [where influencerId = "''inf''" and newId = "''s3''" and deleted = True
      and st = "editing_flow \<lparr> unsubRef := None \<rparr>"
      and cst = "selecting_flow \<lparr> cf_session := None \<rparr>" and failure = None]
  have z: "snd (handleReset ''inf'' ''s3'' True (editing_flow \<lparr> unsubRef := None \<rparr>)) =
       [HttpDelete ''/orchestrator/s1'', RemoveItem ''orch_session_inf'',
        SetItem ''orch_session_inf'' ''s3'',
        SetState ''sessionId'', SetState ''session'', SetState ''currentStep'', SetState ''query'',
        SetState ''postTypeHint'', SetState ''editingPlan'', SetState ''selectedWebIds'',
        SetState ''selectedImageIds'', SetState ''error'', SetState ''loading'',
        SetState ''statusMsg'']"
    using T2 [THEN conjunct2, THEN conjunct2, THEN conjunct2, THEN conjunct2, THEN conjunct2,
              THEN conjunct1, THEN mp, OF u2, THEN conjunct1]
    by (simp add: editing_flow_def ORCHESTRATOR_SESSION_def STORAGE_KEY_PREFIX_def)
  have c0: "cf_session (selecting_flow \<lparr> cf_session := None \<rparr>) = None" by simp
  have d0: "discard_and_render None (selecting_flow \<lparr> cf_session := None \<rparr>)
       = (selecting_flow \<lparr> cf_session := None \<rparr>, [])"
    by (rule T2 [THEN conjunct2, THEN conjunct2, THEN conjunct2, THEN conjunct2, THEN conjunct2,
                 THEN conjunct2, THEN conjunct2, THEN conjunct2, THEN conjunct2, THEN mp, OF c0])
  have c3: "cf_session nameless_flow = Some ?none"
    by (simp add: nameless_flow_def selecting_flow_def)
  have n3: "cs_id ?none = []" by simp
  note T3 = discard_steps [where cst = nameless_flow and sess = ?none]
  have e3: "snd (discard_and_render None nameless_flow) =
       [HttpDelete ''/creation/'', SetState ''session'', SetState ''step'',
        SetState ''location'', SetState ''prompt'', SetState ''selectedAvatar'', SetState ''error'']"
    using T3 [THEN conjunct2, THEN conjunct2, THEN conjunct2, THEN conjunct2, THEN conjunct2,
              THEN conjunct2, THEN conjunct2, THEN conjunct2, THEN conjunct1, THEN mp,
              OF conjI [OF c3 n3], THEN conjunct1]
    by (simp add: CREATION_SESSION_def)
  show ?thesis
    by (intro conjI u O [THEN conjunct1] O [THEN conjunct2, THEN conjunct1]
          O [THEN conjunct2, THEN conjunct2] s u2 z c e C [THEN conjunct2, THEN conjunct1]
          c0 d0 c3 e3)
qed

subsection \<open>Push events and the plan being edited\<close>

text \<open>
  C9 as stated has a push event leave an edited entry alone while its id is still in the
  server's payload.  The user has renamed task \<open>t1\<close> to \<open>my edit\<close>; \<open>orch_plan_ready\<close>
  arrives and the session is fetched again, with \<open>t1\<close> still in its plan under the server's
  name: the plan being edited is the server's plan afterwards, and the edit is gone.
\<close>

theorem push_event_overwrites_edit_counterexample:
  "editingPlan editing_flow = [a_task ''t1'' ''my edit'']
   \<and> research_plan server_session = Some [a_task ''t1'' ''server name'']
   \<and> ''t1'' \<in> set (map task_id [a_task ''t1'' ''server name''])
   \<and> editingPlan (handleSSE ''orch_plan_ready'' None (Some server_session) editing_flow)
       = [a_task ''t1'' ''server name'']
   \<and> editingPlan (handleSSE ''orch_plan_ready'' None (Some server_session) editing_flow)
       \<noteq> editingPlan editing_flow"
  by (simp add: flow_defs)

text \<open>
  C9, as amended.  Handling a push event of type \<open>orch_plan_ready\<close>, \<open>orch_research_ready\<close>
  or \<open>orch_post_ready\<close> fetches the session again, and when the fetched session has a
  research plan the plan being edited becomes that plan, whole: every local edit is lost,
  whether or not its id is still there.  When the fetch fails or the session has no plan,
  and for every other event type, the plan being edited is unchanged.
\<close>

theorem push_event_editingPlan:
  "editingPlan (handleSSE eventType d fetched st) =
     (if refreshes eventType then
        (case fetched of
           None \<Rightarrow> editingPlan st
         | Some sess \<Rightarrow>
             (case research_plan sess of None \<Rightarrow> editingPlan st | Some plan \<Rightarrow> plan))
      else editingPlan st)"
  by (simp add: handleSSE_def refreshSession_def sync_editingPlan_def refreshes_def
      split: option.splits)

text \<open>
  The theorem on the flow with the renamed task: \<open>orch_researching\<close> keeps the edit,
  \<open>orch_research_ready\<close> with the server's plan replaces it.
\<close>

theorem push_event_editingPlan_witness:
  "\<not> refreshes ''orch_researching''
   \<and> editingPlan (handleSSE ''orch_researching'' None (Some server_session) editing_flow)
       = [a_task ''t1'' ''my edit'']
   \<and> refreshes ''orch_research_ready''
   \<and> editingPlan (handleSSE ''orch_research_ready'' None (Some server_session) editing_flow)
       = [a_task ''t1'' ''server name'']"
proof -
  have a: "\<not> refreshes ''orch_researching''" "refreshes ''orch_research_ready''"
    by (simp_all add: refreshes_def)
  have e: "editingPlan editing_flow = [a_task ''t1'' ''my edit'']"
    "research_plan server_session = Some [a_task ''t1'' ''server name'']"
    by (simp_all add: editing_flow_def server_session_def rename_task_def a_task_def)
  have 1: "editingPlan (handleSSE ''orch_researching'' None (Some server_session) editing_flow)
       = [a_task ''t1'' ''my edit'']"
    using push_event_editingPlan [of "''orch_researching''" None "Some server_session" editing_flow]
      a e by simp
  have 2: "editingPlan (handleSSE ''orch_research_ready'' None (Some server_session) editing_flow)
       = [a_task ''t1'' ''server name'']"
    using push_event_editingPlan
      [of "''orch_research_ready''" None "Some server_session" editing_flow] a e
    by simp
  show ?thesis
    by (intro conjI a 1 2)
qed

end
